(* ===== verification/Prelude.thy ===== *)
theory Prelude
  imports Complex_Main
begin

text \<open>
  Shared vocabulary of the development. The program computes with Rust's \<open>f32\<close>; the
  model reads every \<open>f32\<close> as an exact real number (\<open>f32\<close> below), so rounding, NaN
  and the infinities are not modelled. The constants of the standard library that the
  code calls (\<open>f32::consts::PI\<close>, \<open>f32::to_radians\<close>, \<open>f32::clamp\<close>, \<open>f32::min\<close>)
  are written out here as the library defines them. The collections \<open>vec_simps\<close>
  (component equations of the vector and quaternion operations) and \<open>world_simps\<close>
  (the selectors and updates of the world that the systems touch) carry the component
  proofs.
\<close>

type_synonym f32 = real

named_theorems vec_simps "component equations of vector and quaternion operations"
named_theorems world_simps "equations of the world queries and updates"

section \<open>Rust standard library on f32\<close>

text \<open>\<open>std::f32::consts::PI\<close> is the \<open>f32\<close> nearest to \<open>\<pi>\<close>: \<open>13176795 / 2^22\<close>.\<close>

definition f32_PI :: f32 where
  "f32_PI = 13176795 / 4194304"

text \<open>\<open>f32::to_radians\<close>: \<open>self * (consts::PI / 180.0)\<close>.\<close>

definition to_radians :: "f32 \<Rightarrow> f32" where
  "to_radians x = x * (f32_PI / 180)"

text \<open>
  \<open>f32::clamp(self, min, max)\<close>: asserts \<open>min <= max\<close>, then
  \<open>if self < min { self = min }; if self > max { self = max }; self\<close>.
  The assertion is a panic of the library; the program calls \<open>clamp\<close> only with the
  constant bounds \<open>-1.54 <= 1.54\<close>, so the model keeps the two comparisons and
  \<open>f32_clamp_assert\<close> records that the assertion holds at the call.
\<close>

definition f32_clamp :: "f32 \<Rightarrow> f32 \<Rightarrow> f32 \<Rightarrow> f32" where
  "f32_clamp v lo hi = (let v1 = (if v < lo then lo else v) in if v1 > hi then hi else v1)"

text \<open>\<open>f32::min\<close> on numbers that are not NaN.\<close>

definition f32_min :: "f32 \<Rightarrow> f32 \<Rightarrow> f32" where
  "f32_min a b = (if a \<le> b then a else b)"

section \<open>Generic lemmas\<close>

lemma f32_PI_pos [simp]: "0 < f32_PI"
  by (simp add: f32_PI_def)

lemma to_radians_add: "to_radians (a + b) = to_radians a + to_radians b"
  by (simp add: to_radians_def algebra_simps)

lemma to_radians_zero [simp]: "to_radians 0 = 0"
  by (simp add: to_radians_def)

lemma f32_clamp_bounds:
  assumes "lo \<le> hi"
  shows "lo \<le> f32_clamp v lo hi \<and> f32_clamp v lo hi \<le> hi"
  using assms by (simp add: f32_clamp_def Let_def)

lemma f32_clamp_id:
  assumes "lo \<le> v" and "v \<le> hi"
  shows "f32_clamp v lo hi = v"
  using assms by (simp add: f32_clamp_def Let_def)

lemma f32_clamp_eq_max_min:
  assumes "lo \<le> hi"
  shows "f32_clamp v lo hi = max lo (min hi v)"
  using assms by (simp add: f32_clamp_def Let_def max_def min_def)

lemma f32_min_eq [simp]: "f32_min a b = min a b"
  by (simp add: f32_min_def min_def)

lemma half_angle:
  fixes a :: real
  shows "sin a = 2 * sin (a / 2) * cos (a / 2)"
    and "cos a = cos (a / 2) * cos (a / 2) - sin (a / 2) * sin (a / 2)"
    and "sin (a / 2) * sin (a / 2) + cos (a / 2) * cos (a / 2) = 1"
proof -
  have h: "a = 2 * (a / 2)" by simp
  show "sin a = 2 * sin (a / 2) * cos (a / 2)"
    by (subst h, rule sin_double)
  show "cos a = cos (a / 2) * cos (a / 2) - sin (a / 2) * sin (a / 2)"
    by (subst h, subst cos_double) (simp add: power2_eq_square)
  show "sin (a / 2) * sin (a / 2) + cos (a / 2) * cos (a / 2) = 1"
    using sin_cos_squared_add [of "a / 2"] by (simp add: power2_eq_square)
qed

lemma f32_clamp_assert: "(-1.54 :: f32) \<le> 1.54"
  by simp

end
