(* ===== verification/Glam.thy ===== *)
theory Glam
  imports Prelude
begin

text \<open>
  The vector and quaternion library the program calls through \<open>bevy::prelude\<close>
  (glam 0.21 and bevy_transform 0.8): \<open>Vec2\<close>, \<open>Vec3\<close>, \<open>Quat\<close> and \<open>Transform\<close>,
  with the operations \<open>main.rs\<close> uses. They are library code, not code of the
  repository, so they are modelled from the library's documented formulas over exact reals
  (the scalar fallback of glam). The lemmas are the facts the camera proofs need: unit
  quaternions are closed under the Hamilton product, \<open>Quat::from_axis_angle\<close> of a unit
  axis is a unit quaternion, a unit quaternion preserves the length of the vector it
  rotates, and \<open>normalize\<close> of a unit vector is the vector itself.
\<close>

section \<open>Vectors\<close>

record vec2 =
  v2x :: f32
  v2y :: f32

record vec3 =
  vx :: f32
  vy :: f32
  vz :: f32

definition vec3_new :: "f32 \<Rightarrow> f32 \<Rightarrow> f32 \<Rightarrow> vec3" where
  "vec3_new a b c = \<lparr>vx = a, vy = b, vz = c\<rparr>"

definition vec2_new :: "f32 \<Rightarrow> f32 \<Rightarrow> vec2" where
  "vec2_new a b = \<lparr>v2x = a, v2y = b\<rparr>"

definition Vec3_ZERO :: vec3 where "Vec3_ZERO = vec3_new 0 0 0"
definition Vec3_ONE :: vec3 where "Vec3_ONE = vec3_new 1 1 1"
definition Vec3_X :: vec3 where "Vec3_X = vec3_new 1 0 0"
definition Vec3_Y :: vec3 where "Vec3_Y = vec3_new 0 1 0"
definition Vec3_Z :: vec3 where "Vec3_Z = vec3_new 0 0 1"

definition vec3_add :: "vec3 \<Rightarrow> vec3 \<Rightarrow> vec3" where
  "vec3_add a b = vec3_new (vx a + vx b) (vy a + vy b) (vz a + vz b)"

definition vec3_sub :: "vec3 \<Rightarrow> vec3 \<Rightarrow> vec3" where
  "vec3_sub a b = vec3_new (vx a - vx b) (vy a - vy b) (vz a - vz b)"

definition vec3_neg :: "vec3 \<Rightarrow> vec3" where
  "vec3_neg a = vec3_new (- vx a) (- vy a) (- vz a)"

text \<open>\<open>Vec3 * f32\<close>.\<close>

definition vec3_mul :: "vec3 \<Rightarrow> f32 \<Rightarrow> vec3" where
  "vec3_mul a s = vec3_new (vx a * s) (vy a * s) (vz a * s)"

definition vec3_dot :: "vec3 \<Rightarrow> vec3 \<Rightarrow> f32" where
  "vec3_dot a b = vx a * vx b + vy a * vy b + vz a * vz b"

definition vec3_cross :: "vec3 \<Rightarrow> vec3 \<Rightarrow> vec3" where
  "vec3_cross a b = vec3_new (vy a * vz b - vz a * vy b) (vz a * vx b - vx a * vz b)
     (vx a * vy b - vy a * vx b)"

definition vec3_length :: "vec3 \<Rightarrow> f32" where
  "vec3_length a = sqrt (vec3_dot a a)"

text \<open>
  \<open>Vec3::normalize\<close> is \<open>self * self.length_recip()\<close>, \<open>length_recip = 1.0 / length\<close>.
  For the zero vector \<open>f32\<close> gives NaN components; real division by zero gives \<open>0\<close>.
  The program normalizes only rotated unit vectors (lemma \<open>vec3_normalize_unit\<close>), so
  the difference is never reached.
\<close>

definition vec3_normalize :: "vec3 \<Rightarrow> vec3" where
  "vec3_normalize a = vec3_mul a (1 / vec3_length a)"

declare vec3_new_def [vec_simps] vec2_new_def [vec_simps] Vec3_ZERO_def [vec_simps]
  Vec3_ONE_def [vec_simps] Vec3_X_def [vec_simps] Vec3_Y_def [vec_simps] Vec3_Z_def [vec_simps]
  vec3_add_def [vec_simps] vec3_sub_def [vec_simps] vec3_neg_def [vec_simps]
  vec3_mul_def [vec_simps] vec3_dot_def [vec_simps] vec3_cross_def [vec_simps]

section \<open>Quaternions\<close>

record quat =
  qx :: f32
  qy :: f32
  qz :: f32
  qw :: f32

definition quat_from_xyzw :: "f32 \<Rightarrow> f32 \<Rightarrow> f32 \<Rightarrow> f32 \<Rightarrow> quat" where
  "quat_from_xyzw a b c d = \<lparr>qx = a, qy = b, qz = c, qw = d\<rparr>"

definition Quat_IDENTITY :: quat where
  "Quat_IDENTITY = quat_from_xyzw 0 0 0 1"

text \<open>\<open>Quat * Quat\<close>, the Hamilton product as glam writes it.\<close>

definition quat_mul :: "quat \<Rightarrow> quat \<Rightarrow> quat" where
  "quat_mul a b = quat_from_xyzw
     (qw a * qx b + qx a * qw b + qy a * qz b - qz a * qy b)
     (qw a * qy b - qx a * qz b + qy a * qw b + qz a * qx b)
     (qw a * qz b + qx a * qy b - qy a * qx b + qz a * qw b)
     (qw a * qw b - qx a * qx b - qy a * qy b - qz a * qz b)"

text \<open>\<open>Quat::from_axis_angle(axis, angle)\<close>: \<open>(s, c) = (angle * 0.5).sin_cos()\<close>,
  \<open>v = axis * s\<close>, \<open>from_xyzw(v.x, v.y, v.z, c)\<close>.\<close>

definition quat_from_axis_angle :: "vec3 \<Rightarrow> f32 \<Rightarrow> quat" where
  "quat_from_axis_angle axis angle =
     (let s = sin (angle * 0.5); c = cos (angle * 0.5); v = vec3_mul axis s
      in quat_from_xyzw (vx v) (vy v) (vz v) c)"

text \<open>\<open>Quat * Vec3\<close> (\<open>mul_vec3\<close>): with \<open>b\<close> the vector part,
  \<open>rhs * (w*w - b.b) + b * (2 (rhs.b)) + (b \<times> rhs) * (2 w)\<close>.\<close>

definition quat_mul_vec3 :: "quat \<Rightarrow> vec3 \<Rightarrow> vec3" where
  "quat_mul_vec3 q v =
     (let w = qw q; b = vec3_new (qx q) (qy q) (qz q); b2 = vec3_dot b b
      in vec3_add (vec3_add (vec3_mul v (w * w - b2)) (vec3_mul b (vec3_dot v b * 2)))
           (vec3_mul (vec3_cross b v) (w * 2)))"

definition quat_length_squared :: "quat \<Rightarrow> f32" where
  "quat_length_squared q = qx q * qx q + qy q * qy q + qz q * qz q + qw q * qw q"

text \<open>\<open>Quat::from_rotation_axes(x_axis, y_axis, z_axis)\<close> (via \<open>Quat::from_mat3\<close>):
  the quaternion of an orthonormal basis, by the branch on the largest of
  \<open>x\<^sup>2, y\<^sup>2, z\<^sup>2, w\<^sup>2\<close>.\<close>

definition quat_from_rotation_axes :: "vec3 \<Rightarrow> vec3 \<Rightarrow> vec3 \<Rightarrow> quat" where
  "quat_from_rotation_axes xa ya za =
     (let m00 = vx xa; m01 = vy xa; m02 = vz xa;
          m10 = vx ya; m11 = vy ya; m12 = vz ya;
          m20 = vx za; m21 = vy za; m22 = vz za
      in if m22 \<le> 0 then
           (let dif10 = m11 - m00; omm22 = 1 - m22
            in if dif10 \<le> 0 then
                 (let four_xsq = omm22 - dif10; inv4x = 0.5 / sqrt four_xsq
                  in quat_from_xyzw (four_xsq * inv4x) ((m01 + m10) * inv4x)
                       ((m02 + m20) * inv4x) ((m12 - m21) * inv4x))
               else
                 (let four_ysq = omm22 + dif10; inv4y = 0.5 / sqrt four_ysq
                  in quat_from_xyzw ((m01 + m10) * inv4y) (four_ysq * inv4y)
                       ((m12 + m21) * inv4y) ((m20 - m02) * inv4y)))
         else
           (let sum10 = m11 + m00; opm22 = 1 + m22
            in if sum10 \<le> 0 then
                 (let four_zsq = opm22 - sum10; inv4z = 0.5 / sqrt four_zsq
                  in quat_from_xyzw ((m02 + m20) * inv4z) ((m12 + m21) * inv4z)
                       (four_zsq * inv4z) ((m01 - m10) * inv4z))
               else
                 (let four_wsq = opm22 + sum10; inv4w = 0.5 / sqrt four_wsq
                  in quat_from_xyzw ((m12 - m21) * inv4w) ((m20 - m02) * inv4w)
                       ((m01 - m10) * inv4w) (four_wsq * inv4w))))"

declare quat_from_xyzw_def [vec_simps] Quat_IDENTITY_def [vec_simps] quat_mul_def [vec_simps]
  quat_length_squared_def [vec_simps]

section \<open>Transform\<close>

text \<open>\<open>bevy::transform::Transform\<close>: translation, rotation, scale.\<close>

record transform =
  translation :: vec3
  rotation :: quat
  scale :: vec3

definition transform_from_xyz :: "f32 \<Rightarrow> f32 \<Rightarrow> f32 \<Rightarrow> transform" where
  "transform_from_xyz a b c =
     \<lparr>translation = vec3_new a b c, rotation = Quat_IDENTITY, scale = Vec3_ONE\<rparr>"

text \<open>\<open>Transform::default()\<close>: at the origin, no rotation, unit scale.\<close>

definition Transform_default :: transform where
  "Transform_default = \<lparr>translation = Vec3_ZERO, rotation = Quat_IDENTITY, scale = Vec3_ONE\<rparr>"

text \<open>\<open>Transform::looking_at(target, up)\<close> (\<open>look_at\<close>): \<open>forward\<close> is the
  normalized direction from the target to the translation (the local \<open>+Z\<close>),
  \<open>right = up.cross(forward).normalize()\<close>, \<open>up = forward.cross(right)\<close>, and the rotation
  is \<open>Quat::from_mat3(&Mat3::from_cols(right, up, forward))\<close>.\<close>

definition transform_looking_at :: "transform \<Rightarrow> vec3 \<Rightarrow> vec3 \<Rightarrow> transform" where
  "transform_looking_at t target up =
     (let forward = vec3_normalize (vec3_sub (translation t) target);
          right = vec3_normalize (vec3_cross up forward);
          up1 = vec3_cross forward right
      in t\<lparr>rotation := quat_from_rotation_axes right up1 forward\<rparr>)"

text \<open>\<open>local_x = rotation * Vec3::X\<close>, \<open>right = local_x\<close>; \<open>up = local_y\<close>;
  \<open>forward = -local_z\<close>.\<close>

definition transform_right :: "transform \<Rightarrow> vec3" where
  "transform_right t = quat_mul_vec3 (rotation t) Vec3_X"

definition transform_up :: "transform \<Rightarrow> vec3" where
  "transform_up t = quat_mul_vec3 (rotation t) Vec3_Y"

definition transform_forward :: "transform \<Rightarrow> vec3" where
  "transform_forward t = vec3_neg (quat_mul_vec3 (rotation t) Vec3_Z)"

section \<open>Lemmas\<close>

lemma quat_length_squared_mul:
  "quat_length_squared (quat_mul a b) = quat_length_squared a * quat_length_squared b"
  unfolding quat_length_squared_def quat_mul_def quat_from_xyzw_def by simp algebra

lemma quat_mul_vec3_dot:
  "vec3_dot (quat_mul_vec3 q v) (quat_mul_vec3 q v) =
     quat_length_squared q * quat_length_squared q * vec3_dot v v"
  unfolding quat_mul_vec3_def Let_def by (simp add: vec_simps) algebra

lemma quat_mul_vec3_identity [simp]: "quat_mul_vec3 \<lparr>qx = 0, qy = 0, qz = 0, qw = 1\<rparr> v = v"
  by (simp add: quat_mul_vec3_def Let_def vec_simps)

lemma quat_mul_vec3_length:
  assumes "quat_length_squared q = 1"
  shows "vec3_length (quat_mul_vec3 q v) = vec3_length v"
  using assms by (simp add: vec3_length_def quat_mul_vec3_dot)

lemma quat_from_axis_angle_unit:
  assumes "vec3_dot axis axis = 1"
  shows "quat_length_squared (quat_from_axis_angle axis angle) = 1"
proof -
  let ?s = "sin (angle * 0.5)" and ?c = "cos (angle * 0.5)"
  have "quat_length_squared (quat_from_axis_angle axis angle) = vec3_dot axis axis * ?s\<^sup>2 + ?c\<^sup>2"
    by (simp add: quat_from_axis_angle_def Let_def vec_simps power2_eq_square algebra_simps)
  with assms show ?thesis by simp
qed

lemma vec3_length_unit_axes [simp]:
  "vec3_dot Vec3_X Vec3_X = 1" "vec3_dot Vec3_Y Vec3_Y = 1" "vec3_dot Vec3_Z Vec3_Z = 1"
  by (simp_all add: vec_simps)

lemma vec3_normalize_unit:
  assumes "vec3_length a = 1"
  shows "vec3_normalize a = a"
  using assms by (simp add: vec3_normalize_def vec_simps)

lemma vec3_length_mul:
  "vec3_length (vec3_mul a s) = \<bar>s\<bar> * vec3_length a"
proof -
  have "vec3_dot (vec3_mul a s) (vec3_mul a s) = s\<^sup>2 * vec3_dot a a"
    by (simp add: vec_simps power2_eq_square algebra_simps)
  then show ?thesis by (simp add: vec3_length_def real_sqrt_mult)
qed

lemma vec3_add_sub_cancel [simp]: "vec3_sub (vec3_add a b) b = a"
  by (simp add: vec_simps)

lemma vec3_length_sub_add:
  "vec3_length (vec3_sub (vec3_add p d) p) = vec3_length d"
  by (simp add: vec_simps vec3_length_def algebra_simps)

lemma vec3_mul_zero [simp]: "vec3_mul a 0 = Vec3_ZERO"
  by (simp add: vec_simps)

lemma vec3_add_ZERO [simp]: "vec3_add a Vec3_ZERO = a" "vec3_add Vec3_ZERO a = a"
  by (simp_all add: vec_simps)

lemma vec3_length_ZERO [simp]: "vec3_length Vec3_ZERO = 0"
  by (simp add: vec3_length_def vec_simps)

lemma vec3_length_gt_iff:
  assumes "0 \<le> r"
  shows "r < vec3_length v \<longleftrightarrow> r * r < vec3_dot v v"
  using real_sqrt_less_iff [of "r * r" "vec3_dot v v"] assms by (simp add: vec3_length_def)

lemma transform_looking_at_translation [simp]:
  "translation (transform_looking_at t target up) = translation t"
  by (simp add: transform_looking_at_def Let_def)

end
