(* ===== verification/World.thy ===== *)
theory World
  imports Glam
begin

text \<open>
  The shared state the systems of \<open>main.rs\<close> read and write, as the engine (bevy 0.8)
  holds it: the entities with their components, the primary window with its cursor
  state and the command queue that carries its changes to the operating system, and the
  resource \<open>InputState\<close> (\<open>main.rs\<close> lines 9--14). Queries are filters over the entity
  list; \<open>Query::single\<close> is \<open>query_single\<close>, which panics (an \<open>Inl\<close> value) unless
  exactly one entity matches. A panic of a system is a value of \<open>panic\<close>.
\<close>

section \<open>Data\<close>

text \<open>The keys the program reads (\<open>KeyCode::W\<close>, \<open>S\<close>, \<open>D\<close>, \<open>A\<close>, \<open>Space\<close>,
  \<open>LShift\<close>, \<open>Escape\<close>); every other key is \<open>KeyOther\<close>.\<close>

datatype key_code = KeyW | KeyS | KeyD | KeyA | KeySpace | KeyLShift | KeyEscape | KeyOther nat

text \<open>\<open>bevy::ui::Interaction\<close>; \<open>InteractionNone\<close> is \<open>Interaction::None\<close>.\<close>

datatype interaction = Clicked | Hovered | InteractionNone

text \<open>The colours the program names (\<open>Color::rgb\<close> and the named constants).\<close>

datatype color = Rgb f32 f32 f32 | Color_NONE | Color_WHITE | Color_GRAY | Color_ORANGE_RED
  | Color_BLACK

datatype shape = Plane f32 | UVSphere f32 nat nat

text \<open>The requests a \<open>Window\<close> queues for the windowing backend.\<close>

datatype window_command = SetTitle string | SetCursorLockMode bool | SetCursorVisibility bool
  | SetCursorPosition vec2 | Close

record window =
  title :: string
  win_width :: f32
  win_height :: f32
  cursor_locked :: bool
  cursor_visible :: bool
  command_queue :: "window_command list"

text \<open>\<open>struct InputState { pitch: f32, yaw: f32 }\<close>, \<open>#[derive(Default)]\<close>.\<close>

record input_state =
  pitch :: f32
  yaw :: f32

definition input_state_default :: input_state where
  "input_state_default = \<lparr>pitch = 0, yaw = 0\<rparr>"

text \<open>
  An entity and the components the program spawns or queries. \<open>children = None\<close> is
  an entity without a \<open>Children\<close> component; \<open>text_sections\<close> is the list of section values of
  a \<open>Text\<close> component; \<open>point_light\<close> holds intensity and \<open>shadows_enabled\<close>.
\<close>

record entity =
  eid :: nat
  transform :: transform
  mesh :: "shape option"
  material :: "color option"
  point_light :: "(f32 \<times> bool) option"
  camera3d :: bool
  node :: bool
  button :: bool
  parent :: "nat option"
  children :: "nat list option"
  visible :: bool
  ui_color :: "color option"
  text_sections :: "string list option"
  interaction :: "interaction option"
  interaction_changed :: bool

record world =
  entities :: "entity list"
  next_eid :: nat
  primary_window :: "window option"
  input_res :: input_state

datatype panic = QuerySingleNoEntities | QuerySingleMultipleEntities | IndexOutOfBounds
  | UnwrapOnNone

section \<open>Window operations\<close>

definition set_title :: "string \<Rightarrow> window \<Rightarrow> window" where
  "set_title t w = w\<lparr>title := t, command_queue := command_queue w @ [SetTitle t]\<rparr>"

definition set_cursor_lock_mode :: "bool \<Rightarrow> window \<Rightarrow> window" where
  "set_cursor_lock_mode b w =
     w\<lparr>cursor_locked := b, command_queue := command_queue w @ [SetCursorLockMode b]\<rparr>"

definition set_cursor_visibility :: "bool \<Rightarrow> window \<Rightarrow> window" where
  "set_cursor_visibility b w =
     w\<lparr>cursor_visible := b, command_queue := command_queue w @ [SetCursorVisibility b]\<rparr>"

definition set_cursor_position :: "vec2 \<Rightarrow> window \<Rightarrow> window" where
  "set_cursor_position p w = w\<lparr>command_queue := command_queue w @ [SetCursorPosition p]\<rparr>"

definition window_close :: "window \<Rightarrow> window" where
  "window_close w = w\<lparr>command_queue := command_queue w @ [Close]\<rparr>"

declare set_title_def [world_simps] set_cursor_lock_mode_def [world_simps]
  set_cursor_visibility_def [world_simps] set_cursor_position_def [world_simps]
  window_close_def [world_simps]

section \<open>Queries\<close>

definition query_single :: "(entity \<Rightarrow> bool) \<Rightarrow> entity list \<Rightarrow> panic + entity" where
  "query_single P es =
     (case filter P es of
        [] \<Rightarrow> Inl QuerySingleNoEntities
      | [e] \<Rightarrow> Inr e
      | _ \<Rightarrow> Inl QuerySingleMultipleEntities)"

definition find_entity :: "nat \<Rightarrow> entity list \<Rightarrow> entity option" where
  "find_entity i es = find (\<lambda>e. eid e = i) es"

definition update_entity :: "nat \<Rightarrow> (entity \<Rightarrow> entity) \<Rightarrow> entity list \<Rightarrow> entity list" where
  "update_entity i f es = map (\<lambda>e. if eid e = i then f e else e) es"

text \<open>The world's well-formedness: entity ids are distinct and below the id counter.\<close>

definition wf_entities :: "nat \<Rightarrow> entity list \<Rightarrow> bool" where
  "wf_entities n es \<longleftrightarrow> distinct (map eid es) \<and> (\<forall>e \<in> set es. eid e < n)"

section \<open>Lemmas\<close>

lemma query_single_Inr:
  "query_single P es = Inr e \<longleftrightarrow> filter P es = [e]"
  by (auto simp: query_single_def split: list.splits)

lemma query_single_Inr_iff_length:
  "(\<exists>e. query_single P es = Inr e) \<longleftrightarrow> length (filter P es) = 1"
  by (auto simp: query_single_def length_Suc_conv split: list.splits)

lemma query_single_Inr_mem:
  assumes "query_single P es = Inr e"
  shows "e \<in> set es \<and> P e"
proof -
  have "e \<in> set (filter P es)" using assms by (simp add: query_single_Inr)
  then show ?thesis by simp
qed

lemma update_entity_eid [simp]:
  "(\<And>e. eid (f e) = eid e) \<Longrightarrow> map eid (update_entity i f es) = map eid es"
  by (induction es) (auto simp: update_entity_def)

lemma wf_entities_update [intro]:
  "wf_entities n es \<Longrightarrow> (\<And>e. eid (f e) = eid e) \<Longrightarrow> wf_entities n (update_entity i f es)"
  by (auto simp: wf_entities_def update_entity_def distinct_map inj_on_def)

lemma wf_entities_filter [intro]:
  "wf_entities n es \<Longrightarrow> wf_entities n (filter P es)"
  by (auto simp: wf_entities_def distinct_map_filter)

lemma filter_update_entity:
  assumes "\<And>e. Q (f e) = Q e"
  shows "filter Q (update_entity i f es) = update_entity i f (filter Q es)"
  using assms by (induction es) (auto simp: update_entity_def)

lemma set_window_cursor [simp]:
  "cursor_locked (set_cursor_visibility b w) = cursor_locked w"
  "cursor_visible (set_cursor_lock_mode b w) = cursor_visible w"
  "cursor_locked (set_cursor_position p w) = cursor_locked w"
  "cursor_visible (set_cursor_position p w) = cursor_visible w"
  "cursor_locked (window_close w) = cursor_locked w"
  "cursor_visible (window_close w) = cursor_visible w"
  "win_width (set_cursor_lock_mode b w) = win_width w"
  "win_height (set_cursor_lock_mode b w) = win_height w"
  "win_width (set_cursor_visibility b w) = win_width w"
  "win_height (set_cursor_visibility b w) = win_height w"
  by (simp_all add: world_simps)

end
