(* ===== verification/Cursor.thy ===== *)
theory Cursor
  imports World
begin

text \<open>
  Cursor grab and pause overlay (\<open>main.rs\<close> lines 247--275): \<open>toggle_grab_cursor\<close>
  inverts the window's cursor lock and visibility and recentres a cursor that has become
  visible; \<open>initial_grab_cursor\<close> is the startup system that applies it once to the
  primary window; \<open>toggle_pause_menu\<close> flips the visibility of every UI node without a
  parent. The lemmas show that each toggle is an involution on the state it flips, that
  the cursor invariant \<open>visible \<longleftrightarrow> \<not> locked\<close> is kept, and what the window is asked to do.
\<close>

section \<open>Definitions\<close>

definition toggle_grab_cursor :: "window \<Rightarrow> window" where
  "toggle_grab_cursor w0 =
     (let w1 = set_cursor_lock_mode (\<not> cursor_locked w0) w0;
          w2 = set_cursor_visibility (\<not> cursor_visible w1) w1
      in if cursor_visible w2
         then (let xmid = win_width w2 / 2; ymid = win_height w2 / 2
               in set_cursor_position (vec2_new xmid ymid) w2)
         else w2)"

definition initial_grab_cursor :: "world \<Rightarrow> world" where
  "initial_grab_cursor w =
     (case primary_window w of
        Some win \<Rightarrow> w\<lparr>primary_window := Some (toggle_grab_cursor win)\<rparr>
      | None \<Rightarrow> w)"

text \<open>The query \<open>Query<(&Node, &mut Visibility), Without<Parent>>\<close>.\<close>

definition is_menu_root :: "entity \<Rightarrow> bool" where
  "is_menu_root e \<longleftrightarrow> node e \<and> parent e = None"

text \<open>The loop also prints \<open>ran\<close> to standard output, which is not modelled.\<close>

definition toggle_pause_menu :: "entity list \<Rightarrow> entity list" where
  "toggle_pause_menu es = map (\<lambda>e. if is_menu_root e then e\<lparr>visible := \<not> visible e\<rparr> else e) es"

text \<open>The cursor invariant of the spec: the cursor is visible exactly when it is not locked.\<close>

definition cursor_inv :: "window \<Rightarrow> bool" where
  "cursor_inv w \<longleftrightarrow> (cursor_visible w \<longleftrightarrow> \<not> cursor_locked w)"

section \<open>Lemmas\<close>

lemma toggle_grab_cursor_fields [simp]:
  "cursor_locked (toggle_grab_cursor w) = (\<not> cursor_locked w)"
  "cursor_visible (toggle_grab_cursor w) = (\<not> cursor_visible w)"
  "win_width (toggle_grab_cursor w) = win_width w"
  "win_height (toggle_grab_cursor w) = win_height w"
  "title (toggle_grab_cursor w) = title w"
  by (simp_all add: toggle_grab_cursor_def Let_def world_simps)

lemma toggle_grab_cursor_queue:
  "command_queue (toggle_grab_cursor w) =
     command_queue w @ [SetCursorLockMode (\<not> cursor_locked w), SetCursorVisibility (\<not> cursor_visible w)]
     @ (if cursor_visible w then [] else [SetCursorPosition (vec2_new (win_width w / 2) (win_height w / 2))])"
  by (simp add: toggle_grab_cursor_def Let_def world_simps)

lemma cursor_inv_toggle [intro]: "cursor_inv w \<Longrightarrow> cursor_inv (toggle_grab_cursor w)"
  by (simp add: cursor_inv_def)

lemma toggle_pause_menu_eid [simp]: "map eid (toggle_pause_menu es) = map eid es"
  by (simp add: toggle_pause_menu_def comp_def)

lemma toggle_pause_menu_involution [simp]: "toggle_pause_menu (toggle_pause_menu es) = es"
  by (induction es) (auto simp: toggle_pause_menu_def is_menu_root_def)

lemma toggle_pause_menu_filter:
  "(\<And>e b. P (e\<lparr>visible := b\<rparr>) = P e) \<Longrightarrow>
     filter P (toggle_pause_menu es) = toggle_pause_menu (filter P es)"
  by (induction es) (auto simp: toggle_pause_menu_def)

end
