(* ===== verification/Camera.thy ===== *)
theory Camera
  imports Scene
begin

text \<open>
  The camera system \<open>move_cam\<close> (\<open>main.rs\<close> lines 166--245), the core of the program.
  Per frame it reads the held keys, the keys pressed this frame and the mouse-motion
  events, and it
  \<^enum> returns at once when there is no primary window;
  \<^enum> takes the one camera (\<open>Query::single_mut\<close>, which panics otherwise);
  \<^enum> moves the camera by \<open>SPEED\<close> along \<open>forward\<close>, \<open>right\<close> or \<open>up\<close> of its current
    rotation for each held key of W, S, D, A, Space, LShift, in that order
    (\<open>move_keys\<close>, built from one \<open>key_move\<close> per \<open>if\<close> of the source);
  \<^enum> on Escape pressed this frame, toggles the cursor grab and the pause overlay;
  \<^enum> for each mouse event, if the cursor is locked, subtracts the scaled deltas from the
    \<open>InputState\<close> accumulators (\<open>mouse_delta\<close>), then clamps the pitch and recomputes
    the rotation as yaw about \<open>Y\<close> times pitch about \<open>X\<close> (\<open>mouse_look\<close>).
\<close>

section \<open>Definitions\<close>

definition SPEED :: f32 where "SPEED = 0.1"

definition SENS :: f32 where "SENS = 0.00012"

text \<open>The input a frame hands to the system: \<open>Res<Input<KeyCode>>\<close> (held and
  just-pressed keys) and \<open>EventReader<MouseMotion>\<close> (the deltas in order).\<close>

record frame_input =
  keys_pressed :: "key_code list"
  keys_just_pressed :: "key_code list"
  mouse_motion :: "vec2 list"

text \<open>One \<open>if keys.pressed(k) { transform.translation \<plusminus>= dir().normalize() * SPEED }\<close>.\<close>

definition key_move :: "bool \<Rightarrow> (transform \<Rightarrow> vec3) \<Rightarrow> bool \<Rightarrow> transform \<Rightarrow> transform" where
  "key_move held dir positive t =
     (if held then
        (let v = dir t; step = vec3_mul (vec3_normalize v) SPEED
         in t\<lparr>translation := (if positive then vec3_add (translation t) step
                              else vec3_sub (translation t) step)\<rparr>)
      else t)"

definition move_keys :: "key_code list \<Rightarrow> transform \<Rightarrow> transform" where
  "move_keys ks t =
     key_move (KeyLShift \<in> set ks) transform_up False
      (key_move (KeySpace \<in> set ks) transform_up True
       (key_move (KeyA \<in> set ks) transform_right False
        (key_move (KeyD \<in> set ks) transform_right True
         (key_move (KeyS \<in> set ks) transform_forward False
          (key_move (KeyW \<in> set ks) transform_forward True t)))))"

text \<open>\<open>Quat::from_axis_angle(Vec3::Y, yaw) * Quat::from_axis_angle(Vec3::X, pitch)\<close>.\<close>

definition look_rotation :: "input_state \<Rightarrow> quat" where
  "look_rotation st =
     quat_mul (quat_from_axis_angle Vec3_Y (yaw st)) (quat_from_axis_angle Vec3_X (pitch st))"

text \<open>The body of \<open>if win.cursor_locked() { ... }\<close>: pitch first, then yaw.\<close>

definition mouse_delta :: "window \<Rightarrow> vec2 \<Rightarrow> input_state \<Rightarrow> input_state" where
  "mouse_delta win ev st =
     (if cursor_locked win then
        (let window_scale = f32_min (win_height win) (win_width win);
             st1 = st\<lparr>pitch := pitch st - to_radians (SENS * v2y ev * window_scale)\<rparr>
         in st1\<lparr>yaw := yaw st1 - to_radians (SENS * v2x ev * window_scale)\<rparr>)
      else st)"

fun mouse_look :: "window \<Rightarrow> vec2 list \<Rightarrow> input_state \<times> transform \<Rightarrow> input_state \<times> transform" where
  "mouse_look win [] (st, t) = (st, t)"
| "mouse_look win (ev # evs) (st, t) =
     (let st1 = mouse_delta win ev st;
          st2 = st1\<lparr>pitch := f32_clamp (pitch st1) (-1.54) 1.54\<rparr>
      in mouse_look win evs (st2, t\<lparr>rotation := look_rotation st2\<rparr>))"

definition move_cam :: "frame_input \<Rightarrow> world \<Rightarrow> panic + world" where
  "move_cam inp w =
     (case primary_window w of
        None \<Rightarrow> Inr w
      | Some win \<Rightarrow>
          (case query_single camera3d (entities w) of
             Inl err \<Rightarrow> Inl err
           | Inr cam \<Rightarrow>
               (let t1 = move_keys (keys_pressed inp) (transform cam);
                    esc = KeyEscape \<in> set (keys_just_pressed inp);
                    win1 = (if esc then toggle_grab_cursor win else win);
                    es1 = (if esc then toggle_pause_menu (entities w) else entities w);
                    (st2, t2) = mouse_look win1 (mouse_motion inp) (input_res w, t1)
                in Inr (w\<lparr>entities := update_entity (eid cam) (\<lambda>e. e\<lparr>transform := t2\<rparr>) es1,
                          primary_window := Some win1, input_res := st2\<rparr>))))"

text \<open>The pitch range that \<open>clamp(-1.54, 1.54)\<close> keeps.\<close>

definition pitch_ok :: "input_state \<Rightarrow> bool" where
  "pitch_ok st \<longleftrightarrow> -1.54 \<le> pitch st \<and> pitch st \<le> 1.54"

section \<open>Orientation\<close>

lemma look_rotation_unit_sq: "quat_length_squared (look_rotation st) = 1"
  by (simp add: look_rotation_def quat_length_squared_mul quat_from_axis_angle_unit)

lemma look_rotation_right:
  "quat_mul_vec3 (look_rotation st) Vec3_X = vec3_new (cos (yaw st)) 0 (- sin (yaw st))"
proof -
  note hy = half_angle [of "yaw st"] and hp = half_angle [of "pitch st"]
  show ?thesis
    unfolding look_rotation_def quat_from_axis_angle_def quat_mul_vec3_def Let_def
    by (simp add: vec_simps hy(1,2)) (use hp(3) hy(3) in algebra)
qed

lemma look_rotation_forward:
  "vec3_neg (quat_mul_vec3 (look_rotation st) Vec3_Z) =
     vec3_new (- sin (yaw st) * cos (pitch st)) (sin (pitch st)) (- cos (yaw st) * cos (pitch st))"
proof -
  note hy = half_angle [of "yaw st"] and hp = half_angle [of "pitch st"]
  show ?thesis
    unfolding look_rotation_def quat_from_axis_angle_def quat_mul_vec3_def Let_def
    by (simp add: vec_simps hy(1,2) hp(1,2)) (use hp(3) hy(3) in algebra)
qed

lemma look_rotation_up:
  "quat_mul_vec3 (look_rotation st) Vec3_Y =
     vec3_new (sin (yaw st) * sin (pitch st)) (cos (pitch st)) (cos (yaw st) * sin (pitch st))"
proof -
  note hy = half_angle [of "yaw st"] and hp = half_angle [of "pitch st"]
  show ?thesis
    unfolding look_rotation_def quat_from_axis_angle_def quat_mul_vec3_def Let_def
    by (simp add: vec_simps hy(1,2) hp(1,2)) (use hp(3) hy(3) in algebra)
qed

section \<open>Mouse look\<close>

lemma mouse_look_rotation:
  "evs \<noteq> [] \<Longrightarrow> rotation (snd (mouse_look win evs (st, t))) = look_rotation (fst (mouse_look win evs (st, t)))"
proof (induction evs arbitrary: st t)
  case Nil
  then show ?case by simp
next
  case (Cons ev evs)
  then show ?case by (cases evs) (simp_all add: Let_def)
qed

lemma mouse_look_translation [simp]:
  "translation (snd (mouse_look win evs (st, t))) = translation t"
  by (induction evs arbitrary: st t) (simp_all add: Let_def)

lemma mouse_look_Nil_or_rotation:
  "rotation (snd (mouse_look win evs (st, t))) =
     (if evs = [] then rotation t else look_rotation (fst (mouse_look win evs (st, t))))"
  using mouse_look_rotation by simp

lemma mouse_look_pitch_ok:
  "pitch_ok st \<Longrightarrow> pitch_ok (fst (mouse_look win evs (st, t)))"
proof (induction evs arbitrary: st t)
  case Nil
  then show ?case by simp
next
  case (Cons ev evs)
  let ?st1 = "mouse_delta win ev st"
  have "pitch_ok (?st1\<lparr>pitch := f32_clamp (pitch ?st1) (-1.54) 1.54\<rparr>)"
    using f32_clamp_bounds [of "-1.54" "1.54" "pitch ?st1"] by (simp add: pitch_ok_def)
  then show ?case using Cons.IH by (simp add: Let_def)
qed

lemma mouse_look_unlocked:
  assumes "\<not> cursor_locked win" and "pitch_ok st"
  shows "fst (mouse_look win evs (st, t)) = st"
  using assms(2)
proof (induction evs arbitrary: t)
  case Nil
  then show ?case by simp
next
  case (Cons ev evs)
  have "f32_clamp (pitch st) (-1.54) 1.54 = pitch st"
    using Cons.prems by (simp add: pitch_ok_def f32_clamp_id)
  with assms(1) Cons show ?case by (simp add: mouse_delta_def Let_def)
qed

section \<open>Movement\<close>

lemma key_move_rotation [simp]: "rotation (key_move held dir positive t) = rotation t"
  by (simp add: key_move_def Let_def)

lemma key_move_translation:
  "translation (key_move held dir positive t) =
     (if held then (if positive then vec3_add else vec3_sub) (translation t) (vec3_mul (vec3_normalize (dir t)) SPEED)
      else translation t)"
  by (simp add: key_move_def Let_def)

lemma transform_dirs_rotation:
  "rotation t' = rotation t \<Longrightarrow> transform_forward t' = transform_forward t"
  "rotation t' = rotation t \<Longrightarrow> transform_right t' = transform_right t"
  "rotation t' = rotation t \<Longrightarrow> transform_up t' = transform_up t"
  by (simp_all add: transform_forward_def transform_right_def transform_up_def)

lemma key_move_dirs [simp]:
  "transform_forward (key_move held dir positive t) = transform_forward t"
  "transform_right (key_move held dir positive t) = transform_right t"
  "transform_up (key_move held dir positive t) = transform_up t"
  by (simp_all add: transform_forward_def transform_right_def transform_up_def)

lemma key_move_translation_signed:
  "translation (key_move held dir positive t) =
     vec3_add (translation t)
       (vec3_mul (vec3_normalize (dir t)) (SPEED * (if held then (if positive then 1 else -1) else 0)))"
  by (simp add: key_move_def Let_def vec_simps)

lemma move_keys_rotation [simp]: "rotation (move_keys ks t) = rotation t"
  by (simp add: move_keys_def)

text \<open>The displacement of one frame: each held key adds or subtracts \<open>SPEED\<close> times its
  normalized direction, all directions taken from the rotation the frame started with.\<close>

definition held_axis :: "key_code list \<Rightarrow> key_code \<Rightarrow> key_code \<Rightarrow> f32" where
  "held_axis ks kp kn = (if kp \<in> set ks then 1 else 0) - (if kn \<in> set ks then 1 else 0)"

lemma move_keys_translation_eq:
  "translation (move_keys ks t) =
     vec3_add (translation t)
       (vec3_add (vec3_add
          (vec3_mul (vec3_normalize (transform_forward t)) (SPEED * held_axis ks KeyW KeyS))
          (vec3_mul (vec3_normalize (transform_right t)) (SPEED * held_axis ks KeyD KeyA)))
          (vec3_mul (vec3_normalize (transform_up t)) (SPEED * held_axis ks KeySpace KeyLShift)))"
  by (simp add: move_keys_def key_move_translation_signed held_axis_def vec_simps algebra_simps)

lemma vec3_length_neg [simp]: "vec3_length (vec3_neg a) = vec3_length a"
  by (simp add: vec3_length_def vec_simps)

lemma transform_dirs_unit:
  assumes "quat_length_squared (rotation t) = 1"
  shows "vec3_length (transform_forward t) = 1" "vec3_length (transform_right t) = 1"
    "vec3_length (transform_up t) = 1"
proof -
  have "vec3_length Vec3_X = 1" "vec3_length Vec3_Y = 1" "vec3_length Vec3_Z = 1"
    by (simp_all add: vec3_length_def)
  with assms show "vec3_length (transform_forward t) = 1" "vec3_length (transform_right t) = 1"
    "vec3_length (transform_up t) = 1"
    by (simp_all add: transform_forward_def transform_right_def transform_up_def quat_mul_vec3_length)
qed

section \<open>The system\<close>

lemma move_cam_cases:
  assumes "move_cam inp w = Inr w'"
  obtains (no_window) "primary_window w = None" "w' = w"
  | (frame) win cam where "primary_window w = Some win"
      "query_single camera3d (entities w) = Inr cam"
      "primary_window w' = Some (if KeyEscape \<in> set (keys_just_pressed inp) then toggle_grab_cursor win else win)"
      "input_res w' = fst (mouse_look (if KeyEscape \<in> set (keys_just_pressed inp) then toggle_grab_cursor win else win)
          (mouse_motion inp) (input_res w, move_keys (keys_pressed inp) (transform cam)))"
      "entities w' = update_entity (eid cam)
          (\<lambda>e. e\<lparr>transform := snd (mouse_look (if KeyEscape \<in> set (keys_just_pressed inp) then toggle_grab_cursor win else win)
             (mouse_motion inp) (input_res w, move_keys (keys_pressed inp) (transform cam)))\<rparr>)
          (if KeyEscape \<in> set (keys_just_pressed inp) then toggle_pause_menu (entities w) else entities w)"
  using assms
  by (cases "primary_window w"; cases "query_single camera3d (entities w)")
     (auto simp: move_cam_def Let_def split: prod.splits)

lemma move_cam_Inr_iff:
  "(\<exists>w'. move_cam inp w = Inr w') \<longleftrightarrow>
     primary_window w = None \<or> length (filter camera3d (entities w)) = 1"
proof -
  have "(\<exists>w'. move_cam inp w = Inr w') \<longleftrightarrow>
          primary_window w = None \<or> (\<exists>c. query_single camera3d (entities w) = Inr c)"
    by (cases "primary_window w"; cases "query_single camera3d (entities w)")
       (auto simp: move_cam_def Let_def split: prod.splits)
  then show ?thesis by (simp add: query_single_Inr_iff_length)
qed

lemma toggle_pause_menu_camera:
  "filter camera3d (toggle_pause_menu es) = toggle_pause_menu (filter camera3d es)"
  by (rule toggle_pause_menu_filter) simp

lemma move_cam_camera:
  assumes "move_cam inp w = Inr w'" and "primary_window w = Some win"
    and "query_single camera3d (entities w) = Inr cam"
  shows "\<exists>c'. filter camera3d (entities w') = [c'] \<and> eid c' = eid cam \<and>
     transform c' = snd (mouse_look (if KeyEscape \<in> set (keys_just_pressed inp) then toggle_grab_cursor win else win)
        (mouse_motion inp) (input_res w, move_keys (keys_pressed inp) (transform cam)))"
proof -
  let ?t2 = "snd (mouse_look (if KeyEscape \<in> set (keys_just_pressed inp) then toggle_grab_cursor win else win)
        (mouse_motion inp) (input_res w, move_keys (keys_pressed inp) (transform cam)))"
  let ?es1 = "if KeyEscape \<in> set (keys_just_pressed inp) then toggle_pause_menu (entities w) else entities w"
  have cam: "filter camera3d (entities w) = [cam]"
    using assms(3) by (simp add: query_single_Inr)
  have "filter camera3d ?es1 =
      (if KeyEscape \<in> set (keys_just_pressed inp) then toggle_pause_menu [cam] else [cam])"
    by (simp add: toggle_pause_menu_camera cam)
  then have "\<exists>cam1. filter camera3d ?es1 = [cam1] \<and> eid cam1 = eid cam"
    by (simp add: toggle_pause_menu_def)
  then obtain cam1 where cam1: "filter camera3d ?es1 = [cam1]" "eid cam1 = eid cam"
    by blast
  have "entities w' = update_entity (eid cam) (\<lambda>e. e\<lparr>transform := ?t2\<rparr>) ?es1"
    using assms by (cases rule: move_cam_cases) auto
  then have "filter camera3d (entities w') = update_entity (eid cam) (\<lambda>e. e\<lparr>transform := ?t2\<rparr>) [cam1]"
    by (simp add: filter_update_entity cam1(1))
  with cam1(2) show ?thesis by (simp add: update_entity_def)
qed

lemma startup_camera_count: "length (filter camera3d (entities startup_world)) = 1"
  by (simp add: startup_world_entities setup_system_def initial_world_def Let_def pbr_bundle_def
      point_light_bundle_def camera3d_bundle_def node_bundle_def text_bundle_def button_bundle_def
      entity_default_def)

lemma startup_pitch_ok: "pitch_ok (input_res startup_world)"
  by (simp add: startup_world_def initial_grab_cursor_def setup_system_def initial_world_def Let_def
      input_state_default_def pitch_ok_def)

lemma startup_move_cam_Inr: "\<exists>w'. move_cam inp startup_world = Inr w'"
  using startup_camera_count by (simp add: move_cam_Inr_iff)

section \<open>Properties of the camera system\<close>

text \<open>C1. Whatever input a frame brings, \<open>move_cam\<close> keeps the pitch accumulator in the
  clamp range \<open>[-1.54, 1.54]\<close>.\<close>

theorem move_cam_pitch_bounded:
  assumes "pitch_ok (input_res w)" and "move_cam inp w = Inr w'"
  shows "pitch_ok (input_res w')"
  using assms(2)
proof (cases rule: move_cam_cases)
  case no_window
  with assms(1) show ?thesis by simp
next
  case (frame win cam)
  with assms(1) show ?thesis by (simp add: mouse_look_pitch_ok)
qed

theorem move_cam_pitch_bounded_witness:
  "\<exists>w'. pitch_ok (input_res startup_world) \<and>
     move_cam \<lparr>keys_pressed = [], keys_just_pressed = [], mouse_motion = [vec2_new 3 50000]\<rparr> startup_world = Inr w' \<and>
     pitch_ok (input_res w')"
proof -
  obtain w' where w': "move_cam \<lparr>keys_pressed = [], keys_just_pressed = [],
      mouse_motion = [vec2_new 3 50000]\<rparr> startup_world = Inr w'"
    using startup_move_cam_Inr by blast
  show ?thesis using move_cam_pitch_bounded [OF startup_pitch_ok w'] startup_pitch_ok w' by blast
qed

text \<open>C2. One mouse event with the cursor locked: the pitch decreases by
  \<open>to_radians(SENS * dy * min(height, width))\<close> and is then clamped, the yaw decreases by
  \<open>to_radians(SENS * dx * min(height, width))\<close>. The witness is the example of the spec:
  \<open>SENS = 0.00012\<close>, \<open>min(height, width) = 800\<close>, \<open>dx = 100\<close> turn the yaw by
  \<open>-to_radians(9.6)\<close>.\<close>

theorem mouse_look_one_event:
  assumes "cursor_locked win"
  shows "fst (mouse_look win [ev] (st, t)) =
     \<lparr>pitch = f32_clamp (pitch st - to_radians (SENS * v2y ev * min (win_height win) (win_width win))) (-1.54) 1.54,
      yaw = yaw st - to_radians (SENS * v2x ev * min (win_height win) (win_width win))\<rparr>"
  using assms by (simp add: mouse_delta_def Let_def)

theorem mouse_look_one_event_witness:
  "cursor_locked (default_window\<lparr>cursor_locked := True, win_height := 800\<rparr>) \<and>
   fst (mouse_look (default_window\<lparr>cursor_locked := True, win_height := 800\<rparr>) [vec2_new 100 0]
      (input_state_default, Transform_default)) = \<lparr>pitch = 0, yaw = - to_radians 9.6\<rparr>"
proof -
  have l: "cursor_locked (default_window\<lparr>cursor_locked := True, win_height := 800\<rparr>)" by simp
  show ?thesis
    using mouse_look_one_event [OF l, of "vec2_new 100 0" input_state_default Transform_default] l
    by (simp add: default_window_def input_state_default_def SENS_def vec2_new_def f32_clamp_def)
qed

text \<open>C3. With the cursor locked, the yaw after a frame's mouse events is the yaw before
  minus the sum of every event's scaled horizontal delta: the yaw is never clamped and no
  event is lost.\<close>

theorem mouse_look_yaw_locked:
  assumes "cursor_locked win"
  shows "yaw (fst (mouse_look win evs (st, t))) =
           yaw st - (\<Sum>ev\<leftarrow>evs. to_radians (SENS * v2x ev * min (win_height win) (win_width win)))"
  using assms
proof (induction evs arbitrary: st t)
  case Nil
  then show ?case by simp
next
  case (Cons ev evs)
  then show ?case by (simp add: mouse_delta_def Let_def diff_diff_eq)
qed

theorem mouse_look_yaw_locked_witness:
  "cursor_locked (default_window\<lparr>cursor_locked := True\<rparr>) \<and>
   yaw (fst (mouse_look (default_window\<lparr>cursor_locked := True\<rparr>) [vec2_new 10 0, vec2_new (-4) 7]
      (input_state_default, Transform_default))) = - to_radians (0.00012 * 6 * 720)"
proof -
  have l: "cursor_locked (default_window\<lparr>cursor_locked := True\<rparr>)" by simp
  show ?thesis
    using mouse_look_yaw_locked [OF l, of "[vec2_new 10 0, vec2_new (-4) 7]" input_state_default Transform_default] l
    by (simp add: default_window_def input_state_default_def SENS_def vec2_new_def to_radians_def)
qed

text \<open>C4. While the cursor is free (the game is paused) and Escape is not pressed, mouse
  motion leaves the yaw and pitch accumulators untouched.\<close>

theorem move_cam_paused_no_look:
  assumes "primary_window w = Some win" and "\<not> cursor_locked win"
    and "KeyEscape \<notin> set (keys_just_pressed inp)" and "pitch_ok (input_res w)"
    and "move_cam inp w = Inr w'"
  shows "input_res w' = input_res w"
  using assms(5)
proof (cases rule: move_cam_cases)
  case no_window
  then show ?thesis by simp
next
  case (frame win' cam)
  with assms(1-4) show ?thesis by (simp add: mouse_look_unlocked)
qed

theorem move_cam_paused_no_look_witness:
  "\<exists>w'. primary_window (initial_grab_cursor startup_world) =
       Some (toggle_grab_cursor (the (primary_window startup_world))) \<and>
     \<not> cursor_locked (toggle_grab_cursor (the (primary_window startup_world))) \<and>
     KeyEscape \<notin> set [] \<and> pitch_ok (input_res (initial_grab_cursor startup_world)) \<and>
     move_cam \<lparr>keys_pressed = [], keys_just_pressed = [], mouse_motion = [vec2_new 40 (-25)]\<rparr>
       (initial_grab_cursor startup_world) = Inr w' \<and>
     input_res w' = input_res (initial_grab_cursor startup_world)"
proof -
  let ?w = "initial_grab_cursor startup_world"
  let ?win = "toggle_grab_cursor (the (primary_window startup_world))"
  let ?inp = "\<lparr>keys_pressed = [], keys_just_pressed = [], mouse_motion = [vec2_new 40 (-25)]\<rparr>"
  have win: "primary_window ?w = Some ?win"
    by (simp add: initial_grab_cursor_def startup_world_window)
  have free: "\<not> cursor_locked ?win" by (simp add: startup_world_window)
  have p: "pitch_ok (input_res ?w)" using startup_pitch_ok by simp
  have "\<exists>w'. move_cam ?inp ?w = Inr w'"
    using startup_camera_count by (simp add: move_cam_Inr_iff)
  then obtain w' where w': "move_cam ?inp ?w = Inr w'" by blast
  have "KeyEscape \<notin> set (keys_just_pressed ?inp)" by simp
  from move_cam_paused_no_look [OF win free this p w'] win free p w' show ?thesis by auto
qed

text \<open>C5. After a frame with mouse motion the one camera's rotation is exactly
  \<open>Quat::from_axis_angle(Y, yaw) * Quat::from_axis_angle(X, pitch)\<close> of the new
  accumulators, and it is a unit quaternion: a valid rotation.\<close>

theorem move_cam_rotation_from_state:
  assumes "move_cam inp w = Inr w'" and "primary_window w \<noteq> None" and "mouse_motion inp \<noteq> []"
  shows "\<exists>c. filter camera3d (entities w') = [c] \<and>
           rotation (transform c) = look_rotation (input_res w') \<and>
           quat_length_squared (rotation (transform c)) = 1"
  using assms(1)
proof (cases rule: move_cam_cases)
  case no_window
  with assms(2) show ?thesis by simp
next
  case (frame win cam)
  from move_cam_camera [OF assms(1) frame(1,2)] obtain c where
    c: "filter camera3d (entities w') = [c]"
       "transform c = snd (mouse_look (if KeyEscape \<in> set (keys_just_pressed inp) then toggle_grab_cursor win else win)
          (mouse_motion inp) (input_res w, move_keys (keys_pressed inp) (transform cam)))"
    by blast
  with frame(4) assms(3) have "rotation (transform c) = look_rotation (input_res w')"
    by (simp add: mouse_look_rotation)
  with c(1) show ?thesis by (simp add: look_rotation_unit_sq)
qed

theorem move_cam_rotation_from_state_witness:
  "\<exists>w'. move_cam \<lparr>keys_pressed = [], keys_just_pressed = [], mouse_motion = [vec2_new 100 0]\<rparr> startup_world = Inr w' \<and>
     primary_window startup_world \<noteq> None \<and> [vec2_new 100 0] \<noteq> [] \<and>
     (\<exists>c. filter camera3d (entities w') = [c] \<and> rotation (transform c) = look_rotation (input_res w') \<and>
          quat_length_squared (rotation (transform c)) = 1)"
proof -
  obtain w' where w': "move_cam \<lparr>keys_pressed = [], keys_just_pressed = [], mouse_motion = [vec2_new 100 0]\<rparr>
      startup_world = Inr w'"
    using startup_move_cam_Inr by blast
  have win: "primary_window startup_world \<noteq> None" by (simp add: startup_world_window)
  show ?thesis using move_cam_rotation_from_state [OF w' win] w' win by simp
qed

text \<open>C6. The camera never rolls: with the rotation \<open>move_cam\<close> computes, its right vector
  is \<open>(cos yaw, 0, -sin yaw)\<close>, horizontal whatever the pitch.\<close>

theorem look_rotation_roll_free:
  "transform_right (t\<lparr>rotation := look_rotation st\<rparr>) = vec3_new (cos (yaw st)) 0 (- sin (yaw st))"
  by (simp add: transform_right_def look_rotation_right)

text \<open>C7. The camera looks along \<open>(-sin yaw cos pitch, sin pitch, -cos yaw cos pitch)\<close>:
  yaw turns about the world up axis and pitch tilts towards it.\<close>

theorem look_rotation_forward_dir:
  "transform_forward (t\<lparr>rotation := look_rotation st\<rparr>) =
     vec3_new (- sin (yaw st) * cos (pitch st)) (sin (pitch st)) (- cos (yaw st) * cos (pitch st))"
  by (simp add: transform_forward_def look_rotation_forward)

text \<open>C8. A yaw-only orientation (pitch 0) keeps the camera's up vector equal to the world
  up axis: its projection onto the XZ plane is zero.\<close>

theorem yaw_only_up:
  assumes "pitch st = 0"
  shows "transform_up (t\<lparr>rotation := look_rotation st\<rparr>) = Vec3_Y"
  using assms by (simp add: transform_up_def look_rotation_up) (simp add: Vec3_Y_def)

theorem yaw_only_up_witness:
  "pitch \<lparr>pitch = 0, yaw = 2\<rparr> = 0 \<and>
   transform_up (Transform_default\<lparr>rotation := look_rotation \<lparr>pitch = 0, yaw = 2\<rparr>\<rparr>) = Vec3_Y"
  using yaw_only_up [of "\<lparr>pitch = 0, yaw = 2\<rparr>" Transform_default] by simp

text \<open>C9. With a unit rotation, one frame of movement keys moves the camera by
  \<open>SPEED\<close> times (W minus S) along \<open>forward\<close>, (D minus A) along \<open>right\<close> and
  (Space minus LShift) along \<open>up\<close>, all three directions taken from the rotation the frame
  started with: opposite keys cancel and the order of the six \<open>if\<close>s does not matter.\<close>

theorem move_keys_unit_displacement:
  assumes "quat_length_squared (rotation t) = 1"
  shows "translation (move_keys ks t) =
     vec3_add (translation t)
       (vec3_add (vec3_add
          (vec3_mul (transform_forward t) (SPEED * held_axis ks KeyW KeyS))
          (vec3_mul (transform_right t) (SPEED * held_axis ks KeyD KeyA)))
          (vec3_mul (transform_up t) (SPEED * held_axis ks KeySpace KeyLShift)))"
  using transform_dirs_unit [OF assms]
  by (simp add: move_keys_translation_eq vec3_normalize_unit)

theorem move_keys_unit_displacement_witness:
  "quat_length_squared (rotation Transform_default) = 1 \<and>
   translation (move_keys [KeyW, KeyD] Transform_default) = vec3_new 0.1 0 (-0.1)"
proof -
  have u: "quat_length_squared (rotation Transform_default) = 1"
    by (simp add: Transform_default_def vec_simps)
  show ?thesis
    using move_keys_unit_displacement [OF u, of "[KeyW, KeyD]"] u
    by (simp add: Transform_default_def transform_forward_def transform_right_def transform_up_def
        quat_mul_vec3_def held_axis_def SPEED_def vec_simps)
qed

text \<open>C10. Without a primary window \<open>move_cam\<close> returns before touching anything.\<close>

theorem move_cam_no_window:
  assumes "primary_window w = None"
  shows "move_cam inp w = Inr w"
  using assms by (simp add: move_cam_def)

theorem move_cam_no_window_witness:
  "primary_window (startup_world\<lparr>primary_window := None\<rparr>) = None \<and>
   move_cam \<lparr>keys_pressed = [KeyW], keys_just_pressed = [KeyEscape], mouse_motion = [vec2_new 1 1]\<rparr>
     (startup_world\<lparr>primary_window := None\<rparr>) = Inr (startup_world\<lparr>primary_window := None\<rparr>)"
  using move_cam_no_window [of "startup_world\<lparr>primary_window := None\<rparr>"] by simp

text \<open>C11. With a primary window but no camera, or more than one, \<open>move_cam\<close> panics in
  \<open>Query::single_mut\<close> (it does not skip the frame).\<close>

theorem move_cam_camera_panic:
  assumes "primary_window w \<noteq> None" and "length (filter camera3d (entities w)) \<noteq> 1"
  shows "move_cam inp w =
     Inl (if filter camera3d (entities w) = [] then QuerySingleNoEntities else QuerySingleMultipleEntities)"
  using assms by (auto simp: move_cam_def query_single_def split: option.splits list.splits)

theorem move_cam_camera_panic_witness:
  "primary_window initial_world \<noteq> None \<and> length (filter camera3d (entities initial_world)) \<noteq> 1 \<and>
   move_cam \<lparr>keys_pressed = [], keys_just_pressed = [], mouse_motion = []\<rparr> initial_world = Inl QuerySingleNoEntities"
proof -
  have a: "primary_window initial_world \<noteq> None" "length (filter camera3d (entities initial_world)) \<noteq> 1"
    by (simp_all add: initial_world_def)
  show ?thesis using move_cam_camera_panic [OF a] a by (simp add: initial_world_def)
qed

text \<open>C12. Pausing does not stop the camera: with the cursor free (the overlay shown),
  holding W still moves the camera by \<open>SPEED\<close> along its normalized forward vector.\<close>

theorem move_cam_paused_still_moves:
  assumes "primary_window w = Some win" and "\<not> cursor_locked win"
    and "query_single camera3d (entities w) = Inr cam"
    and "move_cam \<lparr>keys_pressed = [KeyW], keys_just_pressed = [], mouse_motion = evs\<rparr> w = Inr w'"
  shows "\<exists>c. filter camera3d (entities w') = [c] \<and>
     translation (transform c) =
       vec3_add (translation (transform cam)) (vec3_mul (vec3_normalize (transform_forward (transform cam))) SPEED)"
proof -
  from move_cam_camera [OF assms(4) assms(1) assms(3)] obtain c where
    c: "filter camera3d (entities w') = [c]"
       "transform c = snd (mouse_look win evs (input_res w, move_keys [KeyW] (transform cam)))"
    by auto
  then show ?thesis by (simp add: move_keys_translation_eq held_axis_def)
qed

theorem move_cam_paused_still_moves_witness:
  "\<exists>w' cam. primary_window (initial_grab_cursor startup_world) =
       Some (toggle_grab_cursor (the (primary_window startup_world))) \<and>
     \<not> cursor_locked (toggle_grab_cursor (the (primary_window startup_world))) \<and>
     query_single camera3d (entities (initial_grab_cursor startup_world)) = Inr cam \<and>
     move_cam \<lparr>keys_pressed = [KeyW], keys_just_pressed = [], mouse_motion = []\<rparr>
       (initial_grab_cursor startup_world) = Inr w' \<and>
     (\<exists>c. filter camera3d (entities w') = [c] \<and>
        translation (transform c) =
          vec3_add (translation (transform cam)) (vec3_mul (vec3_normalize (transform_forward (transform cam))) SPEED))"
proof -
  let ?w = "initial_grab_cursor startup_world"
  let ?win = "toggle_grab_cursor (the (primary_window startup_world))"
  let ?inp = "\<lparr>keys_pressed = [KeyW], keys_just_pressed = [], mouse_motion = []\<rparr>"
  have win: "primary_window ?w = Some ?win"
    by (simp add: initial_grab_cursor_def startup_world_window)
  have free: "\<not> cursor_locked ?win" by (simp add: startup_world_window)
  obtain cam where cam: "query_single camera3d (entities ?w) = Inr cam"
    using startup_camera by simp
  have "\<exists>w'. move_cam ?inp ?w = Inr w'"
    using startup_camera_count by (simp add: move_cam_Inr_iff)
  then obtain w' where w': "move_cam ?inp ?w = Inr w'" by blast
  show ?thesis using move_cam_paused_still_moves [OF win free cam w'] win free cam w' by blast
qed

text \<open>C13. Space moves the camera along its own up vector
  \<open>(sin yaw sin pitch, cos pitch, cos yaw sin pitch)\<close>, which tilts with the pitch: it is
  not the world up axis \<open>Vec3::Y\<close> (the source keeps that variant commented out).\<close>

theorem space_moves_along_camera_up:
  "translation (move_keys [KeySpace] (t\<lparr>rotation := look_rotation st\<rparr>)) =
     vec3_add (translation t)
       (vec3_mul (vec3_new (sin (yaw st) * sin (pitch st)) (cos (pitch st)) (cos (yaw st) * sin (pitch st))) SPEED)"
proof -
  let ?t = "t\<lparr>rotation := look_rotation st\<rparr>"
  have u: "quat_length_squared (rotation ?t) = 1" by (simp add: look_rotation_unit_sq)
  have up: "transform_up ?t = vec3_new (sin (yaw st) * sin (pitch st)) (cos (pitch st)) (cos (yaw st) * sin (pitch st))"
    by (simp add: transform_up_def look_rotation_up)
  show ?thesis
    using transform_dirs_unit [OF u] up
    by (simp add: move_keys_translation_eq held_axis_def vec3_normalize_unit)
qed

end
