(* ===== verification/Button.thy ===== *)
theory Button
  imports Scene
begin

text \<open>
  The quit button (\<open>main.rs\<close> lines 277--308). \<open>button_system\<close> visits, in entity
  order, every entity with \<open>Button\<close>, \<open>Interaction\<close>, \<open>UiColor\<close> and \<open>Children\<close>
  whose \<open>Interaction\<close> changed since the system last ran. For each it looks up the
  first child (\<open>children[0]\<close>, a panic when there is none), takes that child's \<open>Text\<close>
  (\<open>get_mut(..).unwrap()\<close>, a panic when the child has no \<open>Text\<close>), writes
  \<open>sections[0]\<close> (a panic when there are no sections) and the button colour, and on
  \<open>Clicked\<close> queues a close request on the primary window. After the run the change
  flags are consumed. The engine's focus system, which sets \<open>Interaction\<close> from the
  pointer, is the environment step \<open>set_interaction\<close>.
  The lemmas give the label, colour and close request of each interaction state (the
  table of the spec), the panics, and that the button of the real scene never panics.
\<close>

section \<open>Definitions\<close>

text \<open>\<open>Query<(&Interaction, &mut UiColor, &Children), (Changed<Interaction>, With<Button>)>\<close>.\<close>

definition button_query :: "entity \<Rightarrow> bool" where
  "button_query e \<longleftrightarrow> button e \<and> interaction e \<noteq> None \<and> ui_color e \<noteq> None \<and>
     children e \<noteq> None \<and> interaction_changed e"

text \<open>The arms of \<open>match *interaction\<close>: the label written and the colour set.\<close>

fun button_look :: "interaction \<Rightarrow> string \<times> color" where
  "button_look Clicked = (''Quitting'', Color_BLACK)"
| "button_look Hovered = (''Quit'', Color_ORANGE_RED)"
| "button_look InteractionNone = (''Quit'', Color_GRAY)"

text \<open>One iteration of the loop, for a button \<open>bid\<close> in state \<open>act\<close> with children \<open>chs\<close>.\<close>

definition button_step :: "interaction \<Rightarrow> nat \<Rightarrow> nat list \<Rightarrow> world \<Rightarrow> panic + world" where
  "button_step act bid chs w =
     (case chs of
        [] \<Rightarrow> Inl IndexOutOfBounds
      | c0 # _ \<Rightarrow>
          (case find_entity c0 (entities w) of
             None \<Rightarrow> Inl UnwrapOnNone
           | Some te \<Rightarrow>
               (case text_sections te of
                  None \<Rightarrow> Inl UnwrapOnNone
                | Some secs \<Rightarrow>
                    if secs = [] then Inl IndexOutOfBounds
                    else
                      (let (label, col) = button_look act;
                           es1 = update_entity c0 (\<lambda>e. e\<lparr>text_sections := Some (secs[0 := label])\<rparr>) (entities w);
                           es2 = update_entity bid (\<lambda>e. e\<lparr>ui_color := Some col\<rparr>) es1;
                           win = (if act = Clicked then map_option window_close (primary_window w)
                                  else primary_window w)
                       in Inr (w\<lparr>entities := es2, primary_window := win\<rparr>)))))"

fun button_loop :: "entity list \<Rightarrow> world \<Rightarrow> panic + world" where
  "button_loop [] w = Inr w"
| "button_loop (b # bs) w =
     (case (interaction b, children b) of
        (Some act, Some chs) \<Rightarrow>
          (case button_step act (eid b) chs w of
             Inl err \<Rightarrow> Inl err
           | Inr w' \<Rightarrow> button_loop bs w')
      | _ \<Rightarrow> button_loop bs w)"

text \<open>The change flags are consumed when the system has run.\<close>

definition clear_interaction_changed :: "world \<Rightarrow> world" where
  "clear_interaction_changed w =
     w\<lparr>entities := map (\<lambda>e. e\<lparr>interaction_changed := False\<rparr>) (entities w)\<rparr>"

definition button_system :: "world \<Rightarrow> panic + world" where
  "button_system w =
     (case button_loop (filter button_query (entities w)) w of
        Inl err \<Rightarrow> Inl err
      | Inr w' \<Rightarrow> Inr (clear_interaction_changed w'))"

text \<open>The engine's focus system writes \<open>Interaction\<close> only when it differs, which marks
  it changed.\<close>

definition set_interaction :: "nat \<Rightarrow> interaction \<Rightarrow> world \<Rightarrow> world" where
  "set_interaction bid act w =
     w\<lparr>entities := update_entity bid
        (\<lambda>e. if button e \<and> interaction e \<noteq> Some act
             then e\<lparr>interaction := Some act, interaction_changed := True\<rparr> else e) (entities w)\<rparr>"

text \<open>The first child of a child list exists and carries a non-empty text; a button is
  well formed when its child list is such.\<close>

definition first_child_text :: "entity list \<Rightarrow> nat list \<Rightarrow> bool" where
  "first_child_text es chs \<longleftrightarrow>
     (case chs of
        c0 # _ \<Rightarrow>
          (case find_entity c0 es of
             Some te \<Rightarrow> (case text_sections te of Some secs \<Rightarrow> secs \<noteq> [] | None \<Rightarrow> False)
           | None \<Rightarrow> False)
      | [] \<Rightarrow> False)"

definition button_wf :: "entity list \<Rightarrow> entity \<Rightarrow> bool" where
  "button_wf es b \<longleftrightarrow> (case children b of Some chs \<Rightarrow> first_child_text es chs | None \<Rightarrow> False)"

section \<open>Lemmas\<close>

lemma button_step_ok:
  assumes "find_entity c0 (entities w) = Some te" and "text_sections te = Some secs" and "secs \<noteq> []"
  shows "button_step act bid (c0 # cs) w =
     Inr (w\<lparr>entities := update_entity bid (\<lambda>e. e\<lparr>ui_color := Some (snd (button_look act))\<rparr>)
                         (update_entity c0 (\<lambda>e. e\<lparr>text_sections := Some (secs[0 := fst (button_look act)])\<rparr>) (entities w)),
           primary_window := (if act = Clicked then map_option window_close (primary_window w)
                              else primary_window w)\<rparr>)"
  using assms by (simp add: button_step_def split: prod.splits)

lemma find_entity_update:
  assumes "\<And>e. eid (f e) = eid e"
  shows "find_entity i (update_entity j f es) =
     (if i = j then map_option f (find_entity i es) else find_entity i es)"
  using assms by (induction es) (auto simp: find_entity_def update_entity_def)

lemma button_loop_window:
  assumes "button_loop bs w = Inr w'" and "primary_window w = Some win"
  shows "primary_window w' =
     Some (win\<lparr>command_queue := command_queue win @
        replicate (length (filter (\<lambda>b. interaction b = Some Clicked \<and> children b \<noteq> None) bs)) Close\<rparr>)"
  using assms
proof (induction bs arbitrary: w win)
  case Nil
  then show ?case by simp
next
  case (Cons b bs)
  show ?case
  proof (cases "\<exists>act chs. interaction b = Some act \<and> children b = Some chs")
    case True
    then obtain act chs where b: "interaction b = Some act" "children b = Some chs" by blast
    with Cons.prems obtain w1 where w1: "button_step act (eid b) chs w = Inr w1" "button_loop bs w1 = Inr w'"
      by (auto split: sum.splits)
    have "primary_window w1 = Some (if act = Clicked then window_close win else win)"
      using w1(1) Cons.prems(2)
      by (auto simp: button_step_def split: list.splits option.splits if_splits prod.splits)
    from Cons.IH [OF w1(2) this] b show ?thesis
      by (cases act) (simp_all add: window_close_def replicate_append_same)
  next
    case False
    then have "button_loop (b # bs) w = button_loop bs w"
      by (auto split: option.splits)
    with False Cons.prems Cons.IH show ?thesis by auto
  qed
qed

lemma button_step_panic_iff_wf:
  "children b = Some chs \<Longrightarrow> (\<exists>err. button_step act bid chs w = Inl err) \<longleftrightarrow> \<not> button_wf (entities w) b"
  by (auto simp: button_step_def button_wf_def first_child_text_def split: list.splits option.splits prod.splits)

lemma startup_entities_eval:
  "entities startup_world =
     [pbr_bundle 0 (Plane 5) (Rgb 0.3 0.5 0.3) Transform_default,
      pbr_bundle 1 (UVSphere 1 36 36) (Rgb 0 0 0.6) (transform_from_xyz 0 1 0),
      point_light_bundle 2 1500 True (transform_from_xyz 4 8 4),
      camera3d_bundle 3 (transform_looking_at (transform_from_xyz (-2) 2.5 5) Vec3_ZERO Vec3_Y),
      node_bundle 4 Color_NONE False None [5],
      node_bundle 5 (Rgb 0 0.5 0) True (Some 4) [6, 7, 8],
      text_bundle 6 ''Paused'' 5, text_bundle 7 '' '' 5,
      button_bundle 8 Color_GRAY 5 [9], text_bundle 9 ''Quit'' 8]"
  by (simp add: startup_world_entities setup_system_def initial_world_def Let_def eval_nat_numeral)

lemmas bundle_defs = pbr_bundle_def point_light_bundle_def camera3d_bundle_def node_bundle_def
  text_bundle_def button_bundle_def entity_default_def

lemma clicked_world_entities:
  "entities (set_interaction 8 Clicked startup_world) =
     [pbr_bundle 0 (Plane 5) (Rgb 0.3 0.5 0.3) Transform_default,
      pbr_bundle 1 (UVSphere 1 36 36) (Rgb 0 0 0.6) (transform_from_xyz 0 1 0),
      point_light_bundle 2 1500 True (transform_from_xyz 4 8 4),
      camera3d_bundle 3 (transform_looking_at (transform_from_xyz (-2) 2.5 5) Vec3_ZERO Vec3_Y),
      node_bundle 4 Color_NONE False None [5],
      node_bundle 5 (Rgb 0 0.5 0) True (Some 4) [6, 7, 8],
      text_bundle 6 ''Paused'' 5, text_bundle 7 '' '' 5,
      (button_bundle 8 Color_GRAY 5 [9])\<lparr>interaction := Some Clicked\<rparr>, text_bundle 9 ''Quit'' 8]"
  by (simp add: set_interaction_def startup_entities_eval update_entity_def bundle_defs)

lemma clicked_world_button_system: "\<exists>w'. button_system (set_interaction 8 Clicked startup_world) = Inr w'"
  by (simp add: button_system_def clicked_world_entities bundle_defs button_query_def button_step_def
      find_entity_def update_entity_def)

section \<open>Properties of the button system\<close>

text \<open>C14. The label and colour table of the quit button: for a button whose first child
  has a text, \<open>Clicked\<close> writes ``Quitting'' and black and queues a close request,
  \<open>Hovered\<close> writes ``Quit'' and orange-red, \<open>None\<close> writes ``Quit'' and gray; nothing
  else of the two entities or of the window changes.\<close>

theorem button_step_table:
  assumes "find_entity c0 (entities w) = Some te" and "text_sections te = Some secs" and "secs \<noteq> []"
    and "find_entity bid (entities w) = Some b" and "c0 \<noteq> bid" and "primary_window w = Some win"
  shows "\<exists>w'. button_step act bid (c0 # cs) w = Inr w' \<and>
     find_entity c0 (entities w') =
       Some (te\<lparr>text_sections := Some (secs[0 := (if act = Clicked then ''Quitting'' else ''Quit'')])\<rparr>) \<and>
     find_entity bid (entities w') =
       Some (b\<lparr>ui_color := Some (case act of Clicked \<Rightarrow> Color_BLACK | Hovered \<Rightarrow> Color_ORANGE_RED
                                  | InteractionNone \<Rightarrow> Color_GRAY)\<rparr>) \<and>
     primary_window w' = Some (if act = Clicked then window_close win else win)"
  using assms
  by (cases act) (simp_all add: button_step_ok find_entity_update)

theorem button_step_table_witness:
  "\<exists>w'. find_entity 9 (entities startup_world) = Some (text_bundle 9 ''Quit'' 8) \<and>
     text_sections (text_bundle 9 ''Quit'' 8) = Some [''Quit''] \<and> [''Quit''] \<noteq> [] \<and>
     find_entity 8 (entities startup_world) = Some (button_bundle 8 Color_GRAY 5 [9]) \<and> (9::nat) \<noteq> 8 \<and>
     primary_window startup_world = Some (the (primary_window startup_world)) \<and>
     button_step Clicked 8 [9] startup_world = Inr w' \<and>
     find_entity 9 (entities w') = Some ((text_bundle 9 ''Quit'' 8)\<lparr>text_sections := Some [''Quitting'']\<rparr>) \<and>
     find_entity 8 (entities w') = Some ((button_bundle 8 Color_GRAY 5 [9])\<lparr>ui_color := Some Color_BLACK\<rparr>) \<and>
     primary_window w' = Some (window_close (the (primary_window startup_world)))"
proof -
  have h: "find_entity 9 (entities startup_world) = Some (text_bundle 9 ''Quit'' 8)"
    "text_sections (text_bundle 9 ''Quit'' 8) = Some [''Quit'']" "[''Quit''] \<noteq> []"
    "find_entity 8 (entities startup_world) = Some (button_bundle 8 Color_GRAY 5 [9])" "(9::nat) \<noteq> 8"
    "primary_window startup_world = Some (the (primary_window startup_world))"
    by (simp_all add: startup_entities_eval find_entity_def bundle_defs startup_world_window)
  from button_step_table [OF h, of Clicked "[]"] h show ?thesis by simp
qed

text \<open>C15. One iteration of the button loop panics exactly when the button is malformed:
  no first child (\<open>children[0]\<close>), a first child without \<open>Text\<close> (\<open>unwrap\<close>), or a
  text without sections (\<open>sections[0]\<close>).\<close>

theorem button_step_panics_iff_malformed:
  assumes "children b = Some chs"
  shows "(\<exists>err. button_step act (eid b) chs w = Inl err) \<longleftrightarrow> \<not> button_wf (entities w) b"
  using assms by (rule button_step_panic_iff_wf)

theorem button_step_panics_iff_malformed_witness:
  "children (button_bundle 8 Color_GRAY 5 []) = Some [] \<and>
   button_step Hovered (eid (button_bundle 8 Color_GRAY 5 [])) [] startup_world = Inl IndexOutOfBounds \<and>
   \<not> button_wf (entities startup_world) (button_bundle 8 Color_GRAY 5 [])"
proof -
  have c: "children (button_bundle 8 Color_GRAY 5 []) = Some []" by (simp add: bundle_defs)
  have "button_step Hovered (eid (button_bundle 8 Color_GRAY 5 [])) [] startup_world = Inl IndexOutOfBounds"
    by (simp add: button_step_def)
  with button_step_panics_iff_malformed [OF c, of Hovered startup_world] c show ?thesis by simp
qed

text \<open>C16. Each run of \<open>button_system\<close> that does not panic appends one close request to
  the window for every changed button in the \<open>Clicked\<close> state, and nothing else.\<close>

theorem button_system_close_requests:
  assumes "button_system w = Inr w'" and "primary_window w = Some win"
  shows "primary_window w' =
     Some (win\<lparr>command_queue := command_queue win @
        replicate (length (filter (\<lambda>b. interaction b = Some Clicked) (filter button_query (entities w)))) Close\<rparr>)"
proof -
  obtain w1 where w1: "button_loop (filter button_query (entities w)) w = Inr w1" "w' = clear_interaction_changed w1"
    using assms(1) by (auto simp: button_system_def split: sum.splits)
  have "filter (\<lambda>b. interaction b = Some Clicked \<and> children b \<noteq> None) (filter button_query (entities w)) =
        filter (\<lambda>b. interaction b = Some Clicked) (filter button_query (entities w))"
    by (auto simp: button_query_def intro: filter_cong)
  with button_loop_window [OF w1(1) assms(2)] w1(2) show ?thesis
    by (simp add: clear_interaction_changed_def)
qed

theorem button_system_close_requests_witness:
  "\<exists>w'. button_system (set_interaction 8 Clicked startup_world) = Inr w' \<and>
     primary_window (set_interaction 8 Clicked startup_world) = primary_window startup_world \<and>
     primary_window w' = Some ((the (primary_window startup_world))\<lparr>command_queue :=
        command_queue (the (primary_window startup_world)) @ [Close]\<rparr>)"
proof -
  let ?w = "set_interaction 8 Clicked startup_world"
  note es = clicked_world_entities
  have win: "primary_window ?w = Some (the (primary_window startup_world))"
    by (simp add: set_interaction_def startup_world_window)
  obtain w' where w': "button_system ?w = Inr w'" using clicked_world_button_system by blast
  have "filter (\<lambda>b. interaction b = Some Clicked) (filter button_query (entities ?w)) =
        [(button_bundle 8 Color_GRAY 5 [9])\<lparr>interaction := Some Clicked\<rparr>]"
    by (simp add: es bundle_defs button_query_def)
  with button_system_close_requests [OF w' win] w' win show ?thesis
    by (simp add: set_interaction_def)
qed

end
