(* ===== verification/App.thy ===== *)
theory App
  imports Camera Culling
begin

text \<open>
  The application (\<open>main.rs\<close> lines 16--28): after the two startup systems, every
  frame runs \<open>button_system\<close>, \<open>move_cam\<close> and \<open>enforce_render_distance\<close> once, in
  an order the engine chooses (the three are added without ordering constraints), and
  applies the despawn commands queued by the culling pass at the end of the stage. A
  panic of any system ends the program (\<open>Inl\<close>). Between frames the engine's focus
  system may change a button's \<open>Interaction\<close>. Once a close request is queued the window
  closes and no further frame runs. \<open>app_step\<close> is this step relation and
  \<open>reachable\<close> its closure from the startup worlds (both startup orders).
  \<open>app_inv\<close> collects what every reachable world satisfies: one camera, the pitch in
  range, every button's first child a text, text entities are UI nodes, the primary window
  present with \<open>visible \<longleftrightarrow> \<not> locked\<close>, and every overlay root visible exactly when
  the cursor is visible; \<open>reachable_wf\<close> adds that entity ids stay distinct and below
  the id counter. \<open>pause_abs\<close> and \<open>pause_spec\<close> are the abstract two-state pause
  machine that frames refine. The per-system preservation lemmas are here; the theorems over
  reachable worlds are in the root theory.
\<close>

section \<open>Definitions\<close>

datatype system = ButtonSystem | MoveCam | EnforceRenderDistance

text \<open>A system run on the world and the despawn commands queued so far in the stage.\<close>

fun run_system :: "frame_input \<Rightarrow> system \<Rightarrow> world \<times> nat list \<Rightarrow> panic + world \<times> nat list" where
  "run_system inp ButtonSystem (w, d) =
     (case button_system w of Inl err \<Rightarrow> Inl err | Inr w' \<Rightarrow> Inr (w', d))"
| "run_system inp MoveCam (w, d) =
     (case move_cam inp w of Inl err \<Rightarrow> Inl err | Inr w' \<Rightarrow> Inr (w', d))"
| "run_system inp EnforceRenderDistance (w, d) =
     (case enforce_render_distance w of Inl err \<Rightarrow> Inl err | Inr ids \<Rightarrow> Inr (w, d @ ids))"

fun run_systems :: "frame_input \<Rightarrow> system list \<Rightarrow> world \<times> nat list \<Rightarrow> panic + world \<times> nat list" where
  "run_systems inp [] s = Inr s"
| "run_systems inp (sy # sys) s =
     (case run_system inp sy s of Inl err \<Rightarrow> Inl err | Inr s' \<Rightarrow> run_systems inp sys s')"

text \<open>One frame in the order \<open>order\<close>, with the deferred despawns applied at its end.\<close>

definition frame :: "frame_input \<Rightarrow> system list \<Rightarrow> world \<Rightarrow> panic + world" where
  "frame inp order w =
     (case run_systems inp order (w, []) of
        Inl err \<Rightarrow> Inl err
      | Inr (w', ids) \<Rightarrow> Inr (despawn ids w'))"

definition schedule_ok :: "system list \<Rightarrow> bool" where
  "schedule_ok order \<longleftrightarrow> distinct order \<and> set order = {ButtonSystem, MoveCam, EnforceRenderDistance}"

definition close_requested :: "world \<Rightarrow> bool" where
  "close_requested w \<longleftrightarrow>
     (case primary_window w of Some win \<Rightarrow> Close \<in> set (command_queue win) | None \<Rightarrow> False)"

inductive app_step :: "world \<Rightarrow> world \<Rightarrow> bool" where
  run_frame: "\<not> close_requested w \<Longrightarrow> schedule_ok order \<Longrightarrow> frame inp order w = Inr w' \<Longrightarrow> app_step w w'"
| focus: "app_step w (set_interaction bid act w)"

inductive reachable :: "world \<Rightarrow> bool" where
  startup: "reachable (initial_grab_cursor (setup_system initial_world))"
| startup_swapped: "reachable (setup_system (initial_grab_cursor initial_world))"
| step: "reachable w \<Longrightarrow> app_step w w' \<Longrightarrow> reachable w'"

inductive_cases app_stepE: "app_step w w'"

section \<open>The invariant\<close>

definition menu_roots_visible :: "entity list \<Rightarrow> bool \<Rightarrow> bool" where
  "menu_roots_visible es b \<longleftrightarrow> (\<forall>e \<in> set es. is_menu_root e \<longrightarrow> visible e = b)"

definition buttons_wf :: "entity list \<Rightarrow> bool" where
  "buttons_wf es \<longleftrightarrow>
     (\<forall>b \<in> set es. button b \<longrightarrow> (case children b of Some chs \<Rightarrow> first_child_text es chs | None \<Rightarrow> True))"

definition texts_are_nodes :: "entity list \<Rightarrow> bool" where
  "texts_are_nodes es \<longleftrightarrow> (\<forall>e \<in> set es. text_sections e \<noteq> None \<longrightarrow> node e)"

text \<open>Despawn commands queued in a stage name only entities the culling query matches.\<close>

definition pending_ok :: "world \<Rightarrow> nat list \<Rightarrow> bool" where
  "pending_ok w ids \<longleftrightarrow> (\<forall>e \<in> set (entities w). eid e \<in> set ids \<longrightarrow> cull_query e)"

text \<open>The structural part of the invariant, and the relation between an entity and its
  updated version that every system respects: identity, kind, hierarchy and the presence
  of a non-empty text are kept.\<close>

definition text_ok :: "entity \<Rightarrow> bool" where
  "text_ok e \<longleftrightarrow> (case text_sections e of Some secs \<Rightarrow> secs \<noteq> [] | None \<Rightarrow> False)"

definition same_shape :: "entity \<Rightarrow> entity \<Rightarrow> bool" where
  "same_shape e e' \<longleftrightarrow> eid e' = eid e \<and> camera3d e' = camera3d e \<and> node e' = node e \<and>
     button e' = button e \<and> point_light e' = point_light e \<and> parent e' = parent e \<and>
     children e' = children e \<and> (text_sections e' = None \<longleftrightarrow> text_sections e = None) \<and>
     (text_ok e \<longrightarrow> text_ok e') \<and> (ui_color e \<noteq> None \<longrightarrow> ui_color e' \<noteq> None) \<and>
     (interaction e \<noteq> None \<longrightarrow> interaction e' \<noteq> None)"

text \<open>Every button is a UI node with the colour, children and interaction components of
  its bundle.\<close>

definition buttons_complete :: "entity list \<Rightarrow> bool" where
  "buttons_complete es \<longleftrightarrow>
     (\<forall>b \<in> set es. button b \<longrightarrow> node b \<and> ui_color b \<noteq> None \<and> children b \<noteq> None \<and> interaction b \<noteq> None)"

definition entity_inv :: "entity list \<Rightarrow> bool" where
  "entity_inv es \<longleftrightarrow> distinct (map eid es) \<and> length (filter camera3d es) = 1 \<and>
     buttons_wf es \<and> texts_are_nodes es \<and> buttons_complete es"

definition app_inv :: "world \<Rightarrow> bool" where
  "app_inv w \<longleftrightarrow>
     entity_inv (entities w) \<and> pitch_ok (input_res w) \<and>
     (case primary_window w of
        Some win \<Rightarrow> cursor_inv win \<and> menu_roots_visible (entities w) (cursor_visible win)
      | None \<Rightarrow> False)"

text \<open>The abstract pause state the program promises: playing with the cursor grabbed, or
  paused with the cursor free; Escape switches between the two and nothing else does.
  \<open>pause_abs\<close> reads it off the primary window's lock state.\<close>

datatype pause_mode = Playing | Paused

definition pause_abs :: "world \<Rightarrow> pause_mode option" where
  "pause_abs w = map_option (\<lambda>win. if cursor_locked win then Playing else Paused) (primary_window w)"

fun pause_spec :: "bool \<Rightarrow> pause_mode \<Rightarrow> pause_mode" where
  "pause_spec False m = m"
| "pause_spec True Playing = Paused"
| "pause_spec True Paused = Playing"

section \<open>Lemmas\<close>

lemma first_child_text_ok:
  "first_child_text es chs \<longleftrightarrow>
     (case chs of c0 # _ \<Rightarrow> (case find_entity c0 es of Some te \<Rightarrow> text_ok te | None \<Rightarrow> False) | [] \<Rightarrow> False)"
  by (simp add: first_child_text_def text_ok_def split: list.splits option.splits)

lemma find_entity_shape:
  assumes "list_all2 same_shape es es'" and "find_entity i es = Some e"
  shows "\<exists>e'. find_entity i es' = Some e' \<and> same_shape e e'"
  using assms
proof (induction es es' rule: list_all2_induct)
  case Nil
  then show ?case by (simp add: find_entity_def)
next
  case (Cons x xs y ys)
  then show ?case by (auto simp: find_entity_def same_shape_def split: if_splits)
qed

lemma first_child_text_shape:
  "list_all2 same_shape es es' \<Longrightarrow> first_child_text es chs \<Longrightarrow> first_child_text es' chs"
  by (auto simp: first_child_text_ok same_shape_def split: list.splits option.splits
      dest: find_entity_shape)

lemma list_all2_same_shape_set:
  assumes "list_all2 same_shape es es'" and "e' \<in> set es'"
  obtains e where "e \<in> set es" "same_shape e e'"
  using assms by (metis in_set_impl_in_set_zip2 list_all2_conv_all_nth list_all2_lengthD
      set_zip_leftD split_conv list_all2_iff)

lemma entity_inv_shape:
  assumes "entity_inv es" and "list_all2 same_shape es es'"
  shows "entity_inv es'"
proof -
  have eids: "map eid es' = map eid es"
    using assms(2) by (induction rule: list_all2_induct) (auto simp: same_shape_def)
  have cams: "length (filter camera3d es') = length (filter camera3d es)"
    using assms(2) by (induction rule: list_all2_induct) (auto simp: same_shape_def)
  have "buttons_wf es'"
    unfolding buttons_wf_def
  proof
    fix b' assume "b' \<in> set es'"
    then obtain b where "b \<in> set es" "same_shape b b'" by (rule list_all2_same_shape_set [OF assms(2)])
    with assms show "button b' \<longrightarrow> (case children b' of Some chs \<Rightarrow> first_child_text es' chs | None \<Rightarrow> True)"
      by (auto simp: entity_inv_def buttons_wf_def same_shape_def intro: first_child_text_shape
          split: option.splits)
  qed
  moreover have "texts_are_nodes es'"
    unfolding texts_are_nodes_def
  proof
    fix e' assume "e' \<in> set es'"
    then obtain e where "e \<in> set es" "same_shape e e'" by (rule list_all2_same_shape_set [OF assms(2)])
    with assms(1) show "text_sections e' \<noteq> None \<longrightarrow> node e'"
      by (auto simp: entity_inv_def texts_are_nodes_def same_shape_def)
  qed
  moreover have "buttons_complete es'"
    unfolding buttons_complete_def
  proof
    fix e' assume "e' \<in> set es'"
    then obtain e where "e \<in> set es" "same_shape e e'" by (rule list_all2_same_shape_set [OF assms(2)])
    with assms(1) show "button e' \<longrightarrow> node e' \<and> ui_color e' \<noteq> None \<and> children e' \<noteq> None \<and> interaction e' \<noteq> None"
      by (auto simp: entity_inv_def buttons_complete_def same_shape_def)
  qed
  ultimately show ?thesis using assms(1) eids cams by (simp add: entity_inv_def)
qed

lemma same_shape_update:
  "(\<And>e. e \<in> set es \<Longrightarrow> eid e = i \<Longrightarrow> same_shape e (f e)) \<Longrightarrow> list_all2 same_shape es (update_entity i f es)"
  by (induction es) (auto simp: update_entity_def same_shape_def)

lemma same_shape_refl [simp]: "same_shape e e"
  by (simp add: same_shape_def)

lemma same_shape_trans: "same_shape e1 e2 \<Longrightarrow> same_shape e2 e3 \<Longrightarrow> same_shape e1 e3"
  unfolding same_shape_def by (elim conjE) (intro conjI; simp)

lemma list_all2_same_shape_trans:
  "list_all2 same_shape es1 es2 \<Longrightarrow> list_all2 same_shape es2 es3 \<Longrightarrow> list_all2 same_shape es1 es3"
  by (induction es1 es2 arbitrary: es3 rule: list_all2_induct) (auto simp: list_all2_Cons1 intro: same_shape_trans)

lemma find_entity_distinct:
  "distinct (map eid es) \<Longrightarrow> e \<in> set es \<Longrightarrow> find_entity (eid e) es = Some e"
  by (induction es) (auto simp: find_entity_def)

lemma find_entity_SomeD: "find_entity i es = Some e \<Longrightarrow> e \<in> set es \<and> eid e = i"
  by (induction es) (auto simp: find_entity_def split: if_splits)

lemma menu_roots_visible_map:
  assumes "\<And>e. is_menu_root (g e) = is_menu_root e" and "\<And>e. visible (g e) = visible e"
  shows "menu_roots_visible (map g es) b = menu_roots_visible es b"
  using assms by (simp add: menu_roots_visible_def)

lemma menu_roots_visible_update:
  assumes "\<And>e. visible (f e) = visible e \<and> node (f e) = node e \<and> parent (f e) = parent e"
  shows "menu_roots_visible (update_entity i f es) b = menu_roots_visible es b"
  unfolding update_entity_def
  by (rule menu_roots_visible_map) (simp_all add: assms is_menu_root_def)

lemma button_step_facts:
  assumes "button_step act bid chs w = Inr w'" and "distinct (map eid (entities w))"
  shows "list_all2 same_shape (entities w) (entities w')"
    and "input_res w' = input_res w"
    and "primary_window w' = (if act = Clicked then map_option window_close (primary_window w) else primary_window w)"
    and "menu_roots_visible (entities w') b = menu_roots_visible (entities w) b"
proof -
  obtain c0 cs te secs where c: "chs = c0 # cs" "find_entity c0 (entities w) = Some te"
      "text_sections te = Some secs" "secs \<noteq> []"
    using assms(1) by (auto simp: button_step_def split: list.splits option.splits if_splits)
  let ?ft = "\<lambda>e. e\<lparr>text_sections := Some (secs[0 := fst (button_look act)])\<rparr>"
  let ?fc = "\<lambda>e. e\<lparr>ui_color := Some (snd (button_look act))\<rparr>"
  have w': "w' = w\<lparr>entities := update_entity bid ?fc (update_entity c0 ?ft (entities w)),
      primary_window := (if act = Clicked then map_option window_close (primary_window w) else primary_window w)\<rparr>"
    using assms(1) c by (simp add: button_step_ok)
  have te: "te \<in> set (entities w) \<and> eid te = c0"
    using c(2) by (rule find_entity_SomeD)
  have s1: "list_all2 same_shape (entities w) (update_entity c0 ?ft (entities w))"
  proof (rule same_shape_update)
    fix e assume "e \<in> set (entities w)" "eid e = c0"
    then have "e = te" using find_entity_distinct [OF assms(2) \<open>e \<in> set (entities w)\<close>] c(2) by simp
    with c(3,4) show "same_shape e (?ft e)" by (simp add: same_shape_def text_ok_def)
  qed
  have s2: "list_all2 same_shape (update_entity c0 ?ft (entities w)) (entities w')"
    unfolding w' by (simp, rule same_shape_update) (simp add: same_shape_def text_ok_def)
  show "list_all2 same_shape (entities w) (entities w')" by (rule list_all2_same_shape_trans [OF s1 s2])
  show "input_res w' = input_res w" by (simp add: w')
  show "primary_window w' = (if act = Clicked then map_option window_close (primary_window w) else primary_window w)"
    by (simp add: w')
  show "menu_roots_visible (entities w') b = menu_roots_visible (entities w) b"
    unfolding w' by (simp add: menu_roots_visible_update)
qed

lemma sum_not_Inl: "\<not> (\<exists>err. x = Inl err) \<Longrightarrow> \<exists>y. x = Inr y"
  by (cases x) auto

lemma button_loop_facts:
  assumes "entity_inv (entities w)"
    and "\<forall>b \<in> set bs. case children b of Some chs \<Rightarrow> first_child_text (entities w) chs | None \<Rightarrow> True"
  shows "\<exists>w'. button_loop bs w = Inr w' \<and> list_all2 same_shape (entities w) (entities w') \<and>
     input_res w' = input_res w \<and> (\<forall>b. menu_roots_visible (entities w') b = menu_roots_visible (entities w) b)"
  using assms
proof (induction bs arbitrary: w)
  case Nil
  then show ?case by (simp add: list_all2_refl)
next
  case (Cons b bs)
  show ?case
  proof (cases "\<exists>act chs. interaction b = Some act \<and> children b = Some chs")
    case True
    then obtain act chs where b: "interaction b = Some act" "children b = Some chs" by blast
    with Cons.prems(2) have "button_wf (entities w) b" by (simp add: button_wf_def)
    with b(2) have "\<not> (\<exists>err. button_step act (eid b) chs w = Inl err)"
      by (simp add: button_step_panic_iff_wf)
    then obtain w1 where w1: "button_step act (eid b) chs w = Inr w1" by (blast dest: sum_not_Inl)
    have d: "distinct (map eid (entities w))" using Cons.prems(1) by (simp add: entity_inv_def)
    note f = button_step_facts [OF w1 d]
    have inv1: "entity_inv (entities w1)" by (rule entity_inv_shape [OF Cons.prems(1) f(1)])
    have "\<forall>b \<in> set bs. case children b of Some chs \<Rightarrow> first_child_text (entities w1) chs | None \<Rightarrow> True"
      using Cons.prems(2) first_child_text_shape [OF f(1)] by (auto split: option.splits)
    from Cons.IH [OF inv1 this] obtain w' where w': "button_loop bs w1 = Inr w'"
      "list_all2 same_shape (entities w1) (entities w')" "input_res w' = input_res w1"
      "\<forall>b. menu_roots_visible (entities w') b = menu_roots_visible (entities w1) b" by blast
    have "button_loop (b # bs) w = Inr w'" using b w1 w'(1) by simp
    with w' f show ?thesis by (auto intro: list_all2_same_shape_trans)
  next
    case False
    then have "button_loop (b # bs) w = button_loop bs w" by (auto split: option.splits)
    with False Cons show ?thesis by auto
  qed
qed

lemma same_shape_clear: "list_all2 same_shape es (map (\<lambda>e. e\<lparr>interaction_changed := False\<rparr>) es)"
  by (induction es) (auto simp: same_shape_def text_ok_def)

lemma button_system_facts:
  assumes "app_inv w"
  shows "\<exists>w'. button_system w = Inr w' \<and> app_inv w' \<and> list_all2 same_shape (entities w) (entities w')"
proof -
  obtain win where win: "primary_window w = Some win" "cursor_inv win"
      "menu_roots_visible (entities w) (cursor_visible win)"
    using assms by (auto simp: app_inv_def split: option.splits)
  have inv: "entity_inv (entities w)" using assms by (simp add: app_inv_def)
  have "\<forall>b \<in> set (filter button_query (entities w)).
          case children b of Some chs \<Rightarrow> first_child_text (entities w) chs | None \<Rightarrow> True"
    using inv by (auto simp: entity_inv_def buttons_wf_def button_query_def)
  from button_loop_facts [OF inv this] obtain w1 where w1:
    "button_loop (filter button_query (entities w)) w = Inr w1"
    "list_all2 same_shape (entities w) (entities w1)" "input_res w1 = input_res w"
    "\<forall>b. menu_roots_visible (entities w1) b = menu_roots_visible (entities w) b" by blast
  let ?w' = "clear_interaction_changed w1"
  have sys: "button_system w = Inr ?w'" using w1(1) by (simp add: button_system_def)
  have shape: "list_all2 same_shape (entities w) (entities ?w')"
    using w1(2) same_shape_clear by (auto simp: clear_interaction_changed_def intro: list_all2_same_shape_trans)
  obtain win1 where win1: "primary_window w1 = Some win1" "cursor_locked win1 = cursor_locked win"
      "cursor_visible win1 = cursor_visible win"
    using button_loop_window [OF w1(1) win(1)] by auto
  have "menu_roots_visible (entities ?w') b = menu_roots_visible (entities w1) b" for b
    unfolding clear_interaction_changed_def by (simp, rule menu_roots_visible_map) (simp_all add: is_menu_root_def)
  with w1(3,4) win win1 entity_inv_shape [OF inv shape] assms have "app_inv ?w'"
    by (simp add: app_inv_def cursor_inv_def clear_interaction_changed_def)
  with sys shape show ?thesis by blast
qed

lemma same_shape_toggle: "list_all2 same_shape es (toggle_pause_menu es)"
  by (induction es) (auto simp: toggle_pause_menu_def same_shape_def text_ok_def)

lemma menu_roots_visible_map_iff:
  "menu_roots_visible (map g es) c \<longleftrightarrow> (\<forall>e \<in> set es. is_menu_root (g e) \<longrightarrow> visible (g e) = c)"
  by (simp add: menu_roots_visible_def)

lemma menu_roots_visible_toggle:
  "menu_roots_visible (toggle_pause_menu es) (\<not> b) = menu_roots_visible es b"
proof -
  let ?g = "\<lambda>e. if is_menu_root e then e\<lparr>visible := \<not> visible e\<rparr> else e"
  have pt: "(is_menu_root (?g e) \<longrightarrow> visible (?g e) = (\<not> b)) = (is_menu_root e \<longrightarrow> visible e = b)" for e
    by (cases "is_menu_root e") (auto simp: is_menu_root_def)
  show ?thesis
    unfolding toggle_pause_menu_def menu_roots_visible_map_iff pt by (simp add: menu_roots_visible_def)
qed

lemma move_cam_facts:
  assumes "app_inv w"
  shows "\<exists>w'. move_cam inp w = Inr w' \<and> app_inv w' \<and> list_all2 same_shape (entities w) (entities w')"
proof -
  obtain win where win: "primary_window w = Some win" "cursor_inv win"
      "menu_roots_visible (entities w) (cursor_visible win)"
    using assms by (auto simp: app_inv_def split: option.splits)
  have inv: "entity_inv (entities w)" and p: "pitch_ok (input_res w)"
    using assms by (simp_all add: app_inv_def)
  have "\<exists>w'. move_cam inp w = Inr w'"
    using inv by (simp add: move_cam_Inr_iff entity_inv_def)
  then obtain w' where w': "move_cam inp w = Inr w'" by blast
  let ?esc = "KeyEscape \<in> set (keys_just_pressed inp)"
  let ?win1 = "if ?esc then toggle_grab_cursor win else win"
  let ?es1 = "if ?esc then toggle_pause_menu (entities w) else entities w"
  from w' show ?thesis
  proof (cases rule: move_cam_cases)
    case no_window
    with win show ?thesis by simp
  next
    case (frame win' cam)
    then have fr: "primary_window w' = Some ?win1"
      "input_res w' = fst (mouse_look ?win1 (mouse_motion inp) (input_res w, move_keys (keys_pressed inp) (transform cam)))"
      "entities w' = update_entity (eid cam) (\<lambda>e. e\<lparr>transform := snd (mouse_look ?win1
          (mouse_motion inp) (input_res w, move_keys (keys_pressed inp) (transform cam)))\<rparr>) ?es1"
      using win(1) by simp_all
    have s1: "list_all2 same_shape (entities w) ?es1"
      using same_shape_toggle by (simp add: list_all2_refl)
    have s2: "list_all2 same_shape ?es1 (entities w')"
      unfolding fr(3) by (rule same_shape_update) (simp add: same_shape_def text_ok_def)
    have shape: "list_all2 same_shape (entities w) (entities w')"
      by (rule list_all2_same_shape_trans [OF s1 s2])
    have "menu_roots_visible ?es1 (cursor_visible ?win1)"
      using win(3) menu_roots_visible_toggle [of "entities w" "cursor_visible win"] by simp
    then have m: "menu_roots_visible (entities w') (cursor_visible ?win1)"
      unfolding fr(3) by (simp add: menu_roots_visible_update)
    have c: "cursor_inv ?win1" using win(2) by (simp add: cursor_inv_toggle)
    have "pitch_ok (input_res w')" using p fr(2) by (simp add: mouse_look_pitch_ok)
    with entity_inv_shape [OF inv shape] fr(1) m c have "app_inv w'" by (simp add: app_inv_def)
    with w' shape show ?thesis by blast
  qed
qed

lemma pending_ok_shape:
  assumes "pending_ok w d" and "list_all2 same_shape (entities w) (entities w')"
  shows "pending_ok w' d"
  unfolding pending_ok_def
proof (intro ballI impI)
  fix e' assume e': "e' \<in> set (entities w')" "eid e' \<in> set d"
  from e'(1) obtain e where e: "e \<in> set (entities w)" "same_shape e e'"
    by (rule list_all2_same_shape_set [OF assms(2)])
  with e'(2) assms(1) have "cull_query e" by (auto simp: pending_ok_def same_shape_def)
  with e(2) show "cull_query e'" by (simp add: cull_query_def same_shape_def)
qed

lemma enforce_facts:
  assumes "app_inv w"
  shows "\<exists>ids. enforce_render_distance w = Inr ids \<and> pending_ok w ids"
proof -
  have inv: "entity_inv (entities w)" using assms by (simp add: app_inv_def)
  then have "\<exists>cam. query_single camera3d (entities w) = Inr cam"
    by (simp add: entity_inv_def query_single_Inr_iff_length)
  then obtain cam where cam: "query_single camera3d (entities w) = Inr cam" by blast
  let ?P = "\<lambda>e. cull_query e \<and> beyond_render_distance (translation (transform cam)) e"
  have "pending_ok w (map eid (filter ?P (entities w)))"
    using inv despawn_filter_mem [of "entities w" _ ?P] by (auto simp: pending_ok_def entity_inv_def)
  with cam show ?thesis by (simp add: enforce_render_distance_Inr)
qed

lemma find_entity_filter:
  "find_entity i es = Some e \<Longrightarrow> P e \<Longrightarrow> find_entity i (filter P es) = Some e"
  by (induction es) (auto simp: find_entity_def split: if_splits)

lemma despawn_facts:
  assumes "app_inv w" and "pending_ok w ids"
  shows "app_inv (despawn ids w)"
proof -
  let ?Q = "\<lambda>e. eid e \<notin> set ids"
  have inv: "entity_inv (entities w)" using assms(1) by (simp add: app_inv_def)
  have keep: "e \<in> set (entities w) \<Longrightarrow> \<not> cull_query e \<Longrightarrow> ?Q e" for e
    using assms(2) by (auto simp: pending_ok_def)
  have cams: "filter camera3d (filter ?Q (entities w)) = filter camera3d (entities w)"
    unfolding filter_filter by (rule filter_cong) (auto dest: keep simp: cull_query_def)
  have fct: "first_child_text (filter ?Q (entities w)) chs" if "first_child_text (entities w) chs" for chs
  proof -
    from that have "\<exists>c0 cs te. chs = c0 # cs \<and> find_entity c0 (entities w) = Some te \<and> text_ok te"
      by (auto simp: first_child_text_ok split: list.splits option.splits)
    then obtain c0 cs te where c: "chs = c0 # cs" "find_entity c0 (entities w) = Some te" "text_ok te"
      by blast
    have "te \<in> set (entities w)" using find_entity_SomeD [OF c(2)] by simp
    moreover have "node te"
      using inv \<open>te \<in> set (entities w)\<close> c(3)
      by (auto simp: entity_inv_def texts_are_nodes_def text_ok_def split: option.splits)
    ultimately have "?Q te" by (auto dest: keep simp: cull_query_def)
    with c show ?thesis by (simp add: first_child_text_ok find_entity_filter)
  qed
  have "entity_inv (filter ?Q (entities w))"
    using inv cams fct by (auto simp: entity_inv_def buttons_wf_def texts_are_nodes_def buttons_complete_def distinct_map_filter
        split: option.splits)
  moreover have "menu_roots_visible (filter ?Q (entities w)) b" if "menu_roots_visible (entities w) b" for b
    using that by (simp add: menu_roots_visible_def)
  ultimately show ?thesis using assms(1)
    by (auto simp: app_inv_def despawn_def split: option.splits)
qed

lemma pending_ok_append: "pending_ok w d \<Longrightarrow> pending_ok w ids \<Longrightarrow> pending_ok w (d @ ids)"
  by (auto simp: pending_ok_def)

lemma run_system_facts:
  assumes "app_inv w" and "pending_ok w d"
  shows "\<exists>w' d'. run_system inp sy (w, d) = Inr (w', d') \<and> app_inv w' \<and> pending_ok w' d'"
proof (cases sy)
  case ButtonSystem
  from button_system_facts [OF assms(1)] obtain w' where
    "button_system w = Inr w'" "app_inv w'" "list_all2 same_shape (entities w) (entities w')" by blast
  with assms(2) ButtonSystem show ?thesis by (auto intro: pending_ok_shape)
next
  case MoveCam
  from move_cam_facts [OF assms(1)] obtain w' where
    "move_cam inp w = Inr w'" "app_inv w'" "list_all2 same_shape (entities w) (entities w')" by blast
  with assms(2) MoveCam show ?thesis by (auto intro: pending_ok_shape)
next
  case EnforceRenderDistance
  from enforce_facts [OF assms(1)] obtain ids where
    "enforce_render_distance w = Inr ids" "pending_ok w ids" by blast
  with assms EnforceRenderDistance show ?thesis by (auto intro: pending_ok_append)
qed

lemma run_systems_facts:
  "app_inv w \<Longrightarrow> pending_ok w d \<Longrightarrow>
     \<exists>w' d'. run_systems inp sys (w, d) = Inr (w', d') \<and> app_inv w' \<and> pending_ok w' d'"
proof (induction sys arbitrary: w d)
  case Nil
  then show ?case by simp
next
  case (Cons sy sys)
  from run_system_facts [OF Cons.prems] obtain w1 d1 where
    "run_system inp sy (w, d) = Inr (w1, d1)" "app_inv w1" "pending_ok w1 d1" by blast
  with Cons.IH [of w1 d1] show ?case by simp
qed

lemma frame_facts: "app_inv w \<Longrightarrow> \<exists>w'. frame inp order w = Inr w' \<and> app_inv w'"
proof -
  assume inv: "app_inv w"
  have "pending_ok w []" by (simp add: pending_ok_def)
  from run_systems_facts [OF inv this] obtain w1 d where
    "run_systems inp order (w, []) = Inr (w1, d)" "app_inv w1" "pending_ok w1 d" by blast
  then show ?thesis by (simp add: frame_def despawn_facts)
qed

lemma set_interaction_facts:
  assumes "app_inv w"
  shows "app_inv (set_interaction bid act w)"
proof -
  let ?f = "\<lambda>e. if button e \<and> interaction e \<noteq> Some act
             then e\<lparr>interaction := Some act, interaction_changed := True\<rparr> else e"
  have shape: "list_all2 same_shape (entities w) (update_entity bid ?f (entities w))"
    by (rule same_shape_update) (simp add: same_shape_def text_ok_def)
  have "menu_roots_visible (update_entity bid ?f (entities w)) b = menu_roots_visible (entities w) b" for b
    by (rule menu_roots_visible_update) simp
  with assms entity_inv_shape [OF _ shape] show ?thesis
    by (simp add: app_inv_def set_interaction_def split: option.splits)
qed

lemma startup_swapped_entities:
  "entities (setup_system (initial_grab_cursor initial_world)) = entities startup_world"
  by (simp add: startup_world_entities setup_system_def initial_grab_cursor_def initial_world_def Let_def)

lemma startup_entity_inv: "entity_inv (entities startup_world)"
  by (simp add: entity_inv_def startup_entities_eval bundle_defs buttons_wf_def texts_are_nodes_def buttons_complete_def
      first_child_text_ok find_entity_def text_ok_def)

lemma startup_menu_roots: "menu_roots_visible (entities startup_world) False"
  by (simp add: menu_roots_visible_def startup_entities_eval bundle_defs is_menu_root_def)

lemma startup_app_inv: "app_inv startup_world"
  using startup_entity_inv startup_menu_roots startup_pitch_ok
  by (simp add: app_inv_def startup_world_window cursor_inv_def)

lemma startup_swapped_app_inv: "app_inv (setup_system (initial_grab_cursor initial_world))"
proof -
  have "input_res (setup_system (initial_grab_cursor initial_world)) = input_res startup_world"
    by (simp add: startup_world_def setup_system_def initial_grab_cursor_def initial_world_def Let_def)
  moreover have "primary_window (setup_system (initial_grab_cursor initial_world)) =
      Some (set_title ''RB GAME'' (toggle_grab_cursor default_window))"
    by (simp add: setup_system_def initial_grab_cursor_def initial_world_def Let_def)
  ultimately show ?thesis
    using startup_entity_inv startup_menu_roots startup_pitch_ok
    by (simp add: app_inv_def startup_swapped_entities cursor_inv_def default_window_def world_simps)
qed

lemma app_step_inv: "app_step w w' \<Longrightarrow> app_inv w \<Longrightarrow> app_inv w'"
proof (erule app_stepE)
  fix inp order assume "app_inv w" "frame inp order w = Inr w'"
  then show "app_inv w'" using frame_facts [of w inp order] by auto
next
  fix bid act assume "app_inv w" "w' = set_interaction bid act w"
  then show "app_inv w'" by (simp add: set_interaction_facts)
qed

lemma reachable_app_inv: "reachable w \<Longrightarrow> app_inv w"
proof (induction rule: reachable.induct)
  case startup
  then show ?case using startup_app_inv by (simp add: startup_world_def)
next
  case startup_swapped
  then show ?case by (rule startup_swapped_app_inv)
next
  case (step w w')
  then show ?case by (blast intro: app_step_inv)
qed

lemma update_entity_id: "(\<And>e. e \<in> set es \<Longrightarrow> eid e = i \<Longrightarrow> f e = e) \<Longrightarrow> update_entity i f es = es"
  by (induction es) (auto simp: update_entity_def)

lemma move_keys_Nil [simp]: "move_keys [] t = t"
  by (simp add: move_keys_def key_move_def)

lemma button_loop_no_window:
  "button_loop bs w = Inr w' \<Longrightarrow> primary_window w = None \<Longrightarrow> primary_window w' = None"
proof (induction bs w rule: button_loop.induct)
  case (2 b bs w)
  then show ?case
    by (auto simp: button_step_def Let_def split: option.splits sum.splits list.splits if_splits prod.splits)
qed simp

lemma button_system_window:
  assumes "button_system w = Inr w'"
  shows "map_option (\<lambda>win. (cursor_locked win, cursor_visible win)) (primary_window w') =
         map_option (\<lambda>win. (cursor_locked win, cursor_visible win)) (primary_window w)"
proof (cases "primary_window w")
  case None
  from assms obtain w1 where "button_loop (filter button_query (entities w)) w = Inr w1"
      "w' = clear_interaction_changed w1"
    by (auto simp: button_system_def split: sum.splits)
  with button_loop_no_window None show ?thesis by (simp add: clear_interaction_changed_def)
next
  case (Some win)
  from assms obtain w1 where "button_loop (filter button_query (entities w)) w = Inr w1"
      "w' = clear_interaction_changed w1"
    by (auto simp: button_system_def split: sum.splits)
  with button_loop_window [OF _ Some] Some show ?thesis by (simp add: clear_interaction_changed_def)
qed


lemma pause_spec_False [simp]: "pause_spec False = id"
  by (rule ext) simp

lemma move_cam_pause:
  assumes "move_cam inp w = Inr w'"
  shows "pause_abs w' = map_option (pause_spec (KeyEscape \<in> set (keys_just_pressed inp))) (pause_abs w)"
  using assms
proof (cases rule: move_cam_cases)
  case no_window
  then show ?thesis by (simp add: pause_abs_def)
next
  case (frame win cam)
  then show ?thesis by (cases "cursor_locked win") (simp_all add: pause_abs_def)
qed

lemma run_system_pause:
  assumes "run_system inp sy (w, d) = Inr (w', d')"
  shows "pause_abs w' = map_option (pause_spec (sy = MoveCam \<and> KeyEscape \<in> set (keys_just_pressed inp))) (pause_abs w)"
proof (cases sy)
  case ButtonSystem
  with assms obtain w1 where "button_system w = Inr w1" "w' = w1" by (auto split: sum.splits)
  then have "map_option (\<lambda>win. if cursor_locked win then Playing else Paused) (primary_window w') =
      map_option (\<lambda>win. if cursor_locked win then Playing else Paused) (primary_window w)"
    using button_system_window [of w w1] by (cases "primary_window w1"; cases "primary_window w") auto
  with ButtonSystem show ?thesis by (simp add: pause_abs_def option.map_id)
next
  case MoveCam
  with assms obtain w1 where "move_cam inp w = Inr w1" "w' = w1" by (auto split: sum.splits)
  with MoveCam show ?thesis by (simp add: move_cam_pause)
next
  case EnforceRenderDistance
  with assms show ?thesis by (auto simp: option.map_id split: sum.splits)
qed

lemma run_systems_pause:
  "run_systems inp sys (w, d) = Inr (w', d') \<Longrightarrow>
   pause_abs w' = map_option (pause_spec (KeyEscape \<in> set (keys_just_pressed inp)) ^^ count_list sys MoveCam) (pause_abs w)"
proof (induction sys arbitrary: w d)
  case Nil
  then show ?case by (simp add: option.map_ident)
next
  case (Cons sy sys)
  then obtain w1 d1 where s1: "run_system inp sy (w, d) = Inr (w1, d1)" "run_systems inp sys (w1, d1) = Inr (w', d')"
    by (auto split: sum.splits)
  note p1 = run_system_pause [OF s1(1)]
  from Cons.IH [OF s1(2)] p1 show ?case
    by (cases "sy = MoveCam") (simp_all add: option.map_comp comp_def funpow_swap1 option.map_ident)
qed

lemma distinct_count_list: "distinct xs \<Longrightarrow> count_list xs x = (if x \<in> set xs then 1 else 0)"
  by (induction xs) auto

lemma schedule_ok_count: "schedule_ok order \<Longrightarrow> count_list order MoveCam = 1"
  by (simp add: schedule_ok_def distinct_count_list)


lemma move_cam_escape_only:
  assumes "distinct (map eid (entities w))"
    and "move_cam \<lparr>keys_pressed = [], keys_just_pressed = [KeyEscape], mouse_motion = []\<rparr> w = Inr w'"
  shows "w' = (case primary_window w of None \<Rightarrow> w
      | Some win \<Rightarrow> w\<lparr>entities := toggle_pause_menu (entities w), primary_window := Some (toggle_grab_cursor win)\<rparr>)"
  using assms(2)
proof (cases rule: move_cam_cases)
  case no_window
  then show ?thesis by simp
next
  case (frame win cam)
  have cam: "cam \<in> set (entities w)" using query_single_Inr_mem [OF frame(2)] by simp
  have "update_entity (eid cam) (\<lambda>e. e\<lparr>transform := transform cam\<rparr>) (toggle_pause_menu (entities w)) =
      toggle_pause_menu (entities w)"
  proof (rule update_entity_id)
    fix e assume "e \<in> set (toggle_pause_menu (entities w))" "eid e = eid cam"
    then obtain e0 where "e0 \<in> set (entities w)" "e = (if is_menu_root e0 then e0\<lparr>visible := \<not> visible e0\<rparr> else e0)"
      by (auto simp: toggle_pause_menu_def)
    moreover from this \<open>eid e = eid cam\<close> have "e0 = cam"
      using assms(1) cam by (auto simp: inj_on_eq_iff distinct_map split: if_splits)
    ultimately show "e\<lparr>transform := transform cam\<rparr> = e" by simp
  qed
  moreover have "w' = w\<lparr>entities := update_entity (eid cam) (\<lambda>e. e\<lparr>transform := transform cam\<rparr>)
      (toggle_pause_menu (entities w)), primary_window := Some (toggle_grab_cursor win)\<rparr>"
    using assms(2) frame(1,2) by (simp add: move_cam_def Let_def)
  ultimately show ?thesis using frame(1) by simp
qed

lemma button_system_no_buttons:
  "\<forall>e \<in> set (entities w). \<not> button e \<and> \<not> interaction_changed e \<Longrightarrow> button_system w = Inr w"
  by (simp add: button_system_def button_query_def clear_interaction_changed_def filter_False map_idI)

lemma reachable_startup_world: "reachable startup_world"
  unfolding startup_world_def by (rule reachable.startup)

lemma same_shape_eids: "list_all2 same_shape es es' \<Longrightarrow> map eid es' = map eid es"
  by (induction rule: list_all2_induct) (auto simp: same_shape_def)

lemma wf_entities_shape: "wf_entities n es \<Longrightarrow> list_all2 same_shape es es' \<Longrightarrow> wf_entities n es'"
  by (simp add: wf_entities_def same_shape_eids flip: set_map list.pred_set)
     (metis same_shape_eids set_map imageI image_iff)

lemma button_loop_next_eid: "button_loop bs w = Inr w' \<Longrightarrow> next_eid w' = next_eid w"
proof (induction bs w rule: button_loop.induct)
  case (2 b bs w)
  then show ?case
    by (auto simp: button_step_def Let_def split: option.splits sum.splits list.splits if_splits prod.splits)
qed simp

lemma move_cam_next_eid: "move_cam inp w = Inr w' \<Longrightarrow> next_eid w' = next_eid w"
  by (auto simp: move_cam_def Let_def split: option.splits sum.splits prod.splits)

lemma run_system_wf:
  assumes "app_inv w" and "run_system inp sy (w, d) = Inr (w', d')"
    and "wf_entities (next_eid w) (entities w)"
  shows "wf_entities (next_eid w') (entities w')"
proof (cases sy)
  case ButtonSystem
  from button_system_facts [OF assms(1)] obtain w1 where
    w1: "button_system w = Inr w1" "list_all2 same_shape (entities w) (entities w1)" by blast
  then obtain w0 where "button_loop (filter button_query (entities w)) w = Inr w0" "w1 = clear_interaction_changed w0"
    by (auto simp: button_system_def split: sum.splits)
  then have "next_eid w1 = next_eid w" by (simp add: clear_interaction_changed_def button_loop_next_eid)
  with w1 assms ButtonSystem show ?thesis by (auto intro: wf_entities_shape)
next
  case MoveCam
  from move_cam_facts [OF assms(1)] obtain w1 where
    w1: "move_cam inp w = Inr w1" "list_all2 same_shape (entities w) (entities w1)" by blast
  with move_cam_next_eid [OF w1(1)] assms MoveCam show ?thesis by (auto intro: wf_entities_shape)
next
  case EnforceRenderDistance
  with assms show ?thesis by (auto split: sum.splits)
qed

lemma run_systems_wf:
  "app_inv w \<Longrightarrow> pending_ok w d \<Longrightarrow> run_systems inp sys (w, d) = Inr (w', d') \<Longrightarrow>
   wf_entities (next_eid w) (entities w) \<Longrightarrow> wf_entities (next_eid w') (entities w')"
proof (induction sys arbitrary: w d)
  case Nil
  then show ?case by simp
next
  case (Cons sy sys)
  from run_system_facts [OF Cons.prems(1,2)] obtain w1 d1 where
    r: "run_system inp sy (w, d) = Inr (w1, d1)" "app_inv w1" "pending_ok w1 d1" by blast
  have "wf_entities (next_eid w1) (entities w1)" by (rule run_system_wf [OF Cons.prems(1) r(1) Cons.prems(4)])
  with Cons.IH [OF r(2,3)] Cons.prems(3) r(1) show ?case by simp
qed

lemma app_step_wf:
  assumes "app_step w w'" and "app_inv w" and "wf_entities (next_eid w) (entities w)"
  shows "wf_entities (next_eid w') (entities w')"
  using assms(1)
proof (cases rule: app_step.cases)
  case (run_frame order inp)
  then obtain w1 ids where r: "run_systems inp order (w, []) = Inr (w1, ids)" "w' = despawn ids w1"
    by (auto simp: frame_def split: sum.splits)
  have "pending_ok w []" by (simp add: pending_ok_def)
  from run_systems_wf [OF assms(2) this r(1) assms(3)] r(2) show ?thesis
    by (simp add: despawn_def wf_entities_filter)
next
  case (focus bid act)
  then show ?thesis using assms(3) by (auto simp: set_interaction_def)
qed

lemma startup_wf: "wf_entities (next_eid startup_world) (entities startup_world)"
  by (simp add: wf_entities_def startup_entities_eval bundle_defs startup_world_def
      initial_grab_cursor_def setup_system_def initial_world_def Let_def split: option.splits)

lemma startup_swapped_wf:
  "wf_entities (next_eid (setup_system (initial_grab_cursor initial_world)))
     (entities (setup_system (initial_grab_cursor initial_world)))"
  using startup_wf
  by (simp add: startup_swapped_entities startup_world_def setup_system_def initial_grab_cursor_def
      initial_world_def Let_def)

lemma reachable_wf: "reachable w \<Longrightarrow> wf_entities (next_eid w) (entities w)"
proof (induction rule: reachable.induct)
  case startup
  then show ?case using startup_wf by (simp add: startup_world_def)
next
  case startup_swapped
  then show ?case by (rule startup_swapped_wf)
next
  case (step w w')
  then show ?case using app_step_wf reachable_app_inv by blast
qed

end

