(* ===== verification/Quit.thy ===== *)
theory Quit
  imports App
begin

text \<open>
  The run loop of \<open>App::run\<close> (\<open>main.rs\<close> line 27) and how the program ends. Each
  iteration of the engine's event loop delivers at most one focus change of a button
  (\<open>focus_step\<close>, the environment's \<open>ui_focus_system\<close>), then runs one frame in the order
  the executor chose; the loop ends when a close request is queued on the window
  (bevy's \<open>exit_on_all_closed\<close>) or when a system panics. \<open>app_run\<close> is this loop as a
  \<open>partial_function (option)\<close>: \<open>None\<close> is a run that never ends. The lemmas track
  what a frame does to the buttons' interaction state and to the close request, and the
  main result is that the loop ends, with a close request and no panic, once the Quit
  button is clicked.
\<close>

section \<open>Definitions\<close>

definition focus_step :: "(nat \<times> interaction) option \<Rightarrow> world \<Rightarrow> world" where
  "focus_step ev w = (case ev of None \<Rightarrow> w | Some (bid, act) \<Rightarrow> set_interaction bid act w)"

partial_function (option) app_run ::
  "(nat \<Rightarrow> frame_input) \<Rightarrow> (nat \<Rightarrow> system list) \<Rightarrow> (nat \<Rightarrow> (nat \<times> interaction) option) \<Rightarrow>
   nat \<Rightarrow> world \<Rightarrow> (panic + world) option" where
  "app_run inps scheds focus k w =
     (if close_requested w then Some (Inr w)
      else (case frame (inps k) (scheds k) (focus_step (focus k) w) of
              Inl err \<Rightarrow> Some (Inl err)
            | Inr w' \<Rightarrow> app_run inps scheds focus (Suc k) w'))"

text \<open>A button in the \<open>Clicked\<close> state still carries its change flag, unless the close
  request it caused is already queued.\<close>

definition clicked_ok :: "world \<Rightarrow> bool" where
  "clicked_ok w \<longleftrightarrow>
     (\<forall>b \<in> set (entities w). button b \<and> interaction b = Some Clicked \<longrightarrow> interaction_changed b)"

text \<open>The parts of an entity each system may change, erased: \<open>button_system\<close> writes
  texts, colours and change flags, \<open>move_cam\<close> the camera transform and the overlay's
  visibility.\<close>

definition strip_ui :: "entity \<Rightarrow> entity" where
  "strip_ui e = e\<lparr>text_sections := None, ui_color := None, interaction_changed := False\<rparr>"

definition strip_cam :: "entity \<Rightarrow> entity" where
  "strip_cam e = e\<lparr>transform := Transform_default, visible := True\<rparr>"

definition ui_key :: "entity \<Rightarrow> nat \<times> bool \<times> interaction option" where
  "ui_key e = (eid e, button e, interaction e)"

definition no_changed :: "world \<Rightarrow> bool" where
  "no_changed w \<longleftrightarrow> (\<forall>e \<in> set (entities w). \<not> interaction_changed e)"

definition clicked_pending :: "world \<Rightarrow> bool" where
  "clicked_pending w \<longleftrightarrow> (\<exists>b \<in> set (entities w). button_query b \<and> interaction b = Some Clicked)"

definition no_clicked :: "world \<Rightarrow> bool" where
  "no_clicked w \<longleftrightarrow> \<not> (\<exists>b \<in> set (entities w). button b \<and> interaction b = Some Clicked)"

section \<open>What each system changes\<close>

lemma map_update_entity_inv:
  "(\<And>e. h (f e) = h e) \<Longrightarrow> map h (update_entity i f es) = map h es"
  by (simp add: update_entity_def)

lemma map_strip_eq:
  assumes "map g es' = map g es" and "\<And>e. h (g e) = h e"
  shows "map h es' = map h es"
proof -
  have "map h xs = map h (map g xs)" for xs by (simp add: assms(2))
  with assms(1) show ?thesis by metis
qed

lemma map_eq_set: "map h es' = map h es \<Longrightarrow> e' \<in> set es' \<Longrightarrow> \<exists>e \<in> set es. h e = h e'"
  by (metis imageE image_eqI list.set_map)

lemma button_step_strip:
  assumes "button_step act bid chs w = Inr w'"
  shows "map strip_ui (entities w') = map strip_ui (entities w)"
    and "primary_window w' = (if act = Clicked then map_option window_close (primary_window w) else primary_window w)"
proof -
  obtain c0 cs te secs where c: "chs = c0 # cs" "find_entity c0 (entities w) = Some te"
      "text_sections te = Some secs" "secs \<noteq> []"
    using assms by (auto simp: button_step_def split: list.splits option.splits if_splits)
  then have w': "w' = w\<lparr>entities := update_entity bid (\<lambda>e. e\<lparr>ui_color := Some (snd (button_look act))\<rparr>)
      (update_entity c0 (\<lambda>e. e\<lparr>text_sections := Some (secs[0 := fst (button_look act)])\<rparr>) (entities w)),
      primary_window := (if act = Clicked then map_option window_close (primary_window w) else primary_window w)\<rparr>"
    using assms by (simp add: button_step_ok)
  show "map strip_ui (entities w') = map strip_ui (entities w)"
    by (simp add: w' map_update_entity_inv strip_ui_def)
  show "primary_window w' = (if act = Clicked then map_option window_close (primary_window w) else primary_window w)"
    by (simp add: w')
qed

lemma button_loop_strip:
  "button_loop bs w = Inr w' \<Longrightarrow> map strip_ui (entities w') = map strip_ui (entities w)"
proof (induction bs w rule: button_loop.induct)
  case (2 b bs w)
  then show ?case
    by (auto split: option.splits sum.splits dest: button_step_strip(1))
qed simp


lemma button_system_strip:
  assumes "button_system w = Inr w'"
  shows "map strip_ui (entities w') = map strip_ui (entities w)"
    and "\<forall>e \<in> set (entities w'). \<not> interaction_changed e"
    and "close_requested w \<Longrightarrow> close_requested w'"
    and "clicked_pending w \<Longrightarrow> primary_window w \<noteq> None \<Longrightarrow> close_requested w'"
proof -
  obtain w1 where w1: "button_loop (filter button_query (entities w)) w = Inr w1"
      "w' = clear_interaction_changed w1"
    using assms by (auto simp: button_system_def split: sum.splits)
  have "strip_ui (e\<lparr>interaction_changed := False\<rparr>) = strip_ui e" for e
    by (simp add: strip_ui_def)
  with button_loop_strip [OF w1(1)] w1(2)
  show "map strip_ui (entities w') = map strip_ui (entities w)"
    by (simp add: clear_interaction_changed_def comp_def)
  show "\<forall>e \<in> set (entities w'). \<not> interaction_changed e"
    by (simp add: w1(2) clear_interaction_changed_def)
  show "close_requested w'" if "close_requested w"
  proof -
    from that obtain win where win: "primary_window w = Some win" "Close \<in> set (command_queue win)"
      by (auto simp: close_requested_def split: option.splits)
    from button_loop_window [OF w1(1) win(1)] win(2) show ?thesis
      by (simp add: w1(2) clear_interaction_changed_def close_requested_def)
  qed
  show "close_requested w'" if "clicked_pending w" "primary_window w \<noteq> None"
  proof -
    from that(2) obtain win where Some: "primary_window w = Some win" by blast
    from that(1) obtain b where b: "b \<in> set (entities w)" "button_query b" "interaction b = Some Clicked"
      by (auto simp: clicked_pending_def)
    then have "b \<in> set (filter (\<lambda>b. interaction b = Some Clicked \<and> children b \<noteq> None)
        (filter button_query (entities w)))"
      by (simp add: button_query_def)
    then have "length (filter (\<lambda>b. interaction b = Some Clicked \<and> children b \<noteq> None)
        (filter button_query (entities w))) \<noteq> 0"
      by (metis length_0_conv empty_iff list.set(1))
    with button_loop_window [OF w1(1) Some] show ?thesis
      by (simp add: w1(2) clear_interaction_changed_def close_requested_def)
  qed
qed


lemma map_strip_cam_toggle: "map strip_cam (toggle_pause_menu es) = map strip_cam es"
proof -
  have "strip_cam (if is_menu_root e then e\<lparr>visible := \<not> visible e\<rparr> else e) = strip_cam e" for e
    by (simp add: strip_cam_def)
  then show ?thesis by (simp add: toggle_pause_menu_def comp_def)
qed

lemma close_requested_toggle:
  "Close \<in> set (command_queue win) \<Longrightarrow> Close \<in> set (command_queue (toggle_grab_cursor win))"
  by (simp add: toggle_grab_cursor_queue)

lemma move_cam_strip:
  assumes "move_cam inp w = Inr w'"
  shows "map strip_cam (entities w') = map strip_cam (entities w) \<and>
    (close_requested w \<longrightarrow> close_requested w') \<and> (primary_window w \<noteq> None \<longrightarrow> primary_window w' \<noteq> None)"
  using assms
proof (cases rule: move_cam_cases)
  case no_window
  then show ?thesis by simp
next
  case (frame win cam)
  let ?es1 = "if KeyEscape \<in> set (keys_just_pressed inp) then toggle_pause_menu (entities w) else entities w"
  have "map strip_cam ?es1 = map strip_cam (entities w)" by (simp add: map_strip_cam_toggle)
  moreover have "map strip_cam (entities w') = map strip_cam ?es1"
    unfolding frame(5) by (rule map_update_entity_inv) (simp add: strip_cam_def)
  moreover have "close_requested w \<longrightarrow> close_requested w'"
    using frame(1,3) by (simp add: close_requested_def close_requested_toggle)
  ultimately show ?thesis using frame(3) by simp
qed

lemma ui_key_strip [simp]: "ui_key (strip_ui e) = ui_key e" "ui_key (strip_cam e) = ui_key e"
  by (simp_all add: ui_key_def strip_ui_def strip_cam_def)

lemma move_cam_keys:
  assumes "move_cam inp w = Inr w'"
  shows "map (\<lambda>e. (ui_key e, button_query e, interaction_changed e)) (entities w') =
         map (\<lambda>e. (ui_key e, button_query e, interaction_changed e)) (entities w)"
proof -
  from move_cam_strip [OF assms] have "map strip_cam (entities w') = map strip_cam (entities w)" by blast
  then show ?thesis by (rule map_strip_eq) (simp add: strip_cam_def button_query_def ui_key_def)
qed

lemma run_system_keys:
  assumes "run_system inp sy (w, d) = Inr (w', d')"
  shows "map ui_key (entities w') = map ui_key (entities w) \<and>
    (close_requested w \<longrightarrow> close_requested w') \<and>
    (primary_window w \<noteq> None \<longrightarrow> primary_window w' \<noteq> None) \<and>
    (clicked_pending w \<and> primary_window w \<noteq> None \<longrightarrow>
       (if sy = ButtonSystem then close_requested w' else clicked_pending w')) \<and>
    (sy = ButtonSystem \<or> no_changed w \<longrightarrow> no_changed w')"
proof (cases sy)
  case ButtonSystem
  with assms have b: "button_system w = Inr w'" by (auto split: sum.splits)
  note f = button_system_strip [OF b]
  have "map ui_key (entities w') = map ui_key (entities w)" by (rule map_strip_eq [OF f(1)]) simp
  moreover have "primary_window w \<noteq> None \<longrightarrow> primary_window w' \<noteq> None"
    using button_system_window [OF b] by auto
  ultimately show ?thesis using f(2,3,4) ButtonSystem by (simp add: no_changed_def)
next
  case MoveCam
  with assms have m: "move_cam inp w = Inr w'" by (auto split: sum.splits)
  note f = move_cam_strip [OF m]
  note k = move_cam_keys [OF m]
  have "map ui_key (entities w') = map ui_key (entities w)"
    using arg_cong [OF k, of "map fst"] by (simp add: comp_def)
  moreover have "clicked_pending w \<longrightarrow> clicked_pending w'"
  proof
    assume "clicked_pending w"
    then obtain b where b: "b \<in> set (entities w)" "button_query b" "interaction b = Some Clicked"
      by (auto simp: clicked_pending_def)
    from map_eq_set [OF k [symmetric] b(1)] obtain b' where
      "b' \<in> set (entities w')" "ui_key b' = ui_key b" "button_query b' = button_query b" by auto
    with b show "clicked_pending w'" by (auto simp: clicked_pending_def ui_key_def)
  qed
  moreover have "no_changed w \<longrightarrow> no_changed w'"
  proof
    assume nc: "no_changed w"
    show "no_changed w'" unfolding no_changed_def
    proof
      fix e' assume "e' \<in> set (entities w')"
      from map_eq_set [OF k this] obtain e where "e \<in> set (entities w)"
        "interaction_changed e = interaction_changed e'" by auto
      with nc show "\<not> interaction_changed e'" by (auto simp: no_changed_def)
    qed
  qed
  ultimately show ?thesis using f MoveCam by (intro conjI) (blast, blast, blast, simp, blast)
next
  case EnforceRenderDistance
  with assms have "w' = w" by (auto split: sum.splits)
  with EnforceRenderDistance show ?thesis by simp
qed

lemma run_systems_keys:
  "run_systems inp sys (w, d) = Inr (w', d') \<Longrightarrow>
   map ui_key (entities w') = map ui_key (entities w) \<and>
   (close_requested w \<longrightarrow> close_requested w') \<and>
   (primary_window w \<noteq> None \<longrightarrow> primary_window w' \<noteq> None) \<and>
   (clicked_pending w \<and> primary_window w \<noteq> None \<and> ButtonSystem \<in> set sys \<longrightarrow> close_requested w') \<and>
   (ButtonSystem \<in> set sys \<or> no_changed w \<longrightarrow> no_changed w')"
proof (induction sys arbitrary: w d)
  case Nil
  then show ?case by simp
next
  case (Cons sy sys)
  then obtain w1 d1 where r: "run_system inp sy (w, d) = Inr (w1, d1)" "run_systems inp sys (w1, d1) = Inr (w', d')"
    by (auto split: sum.splits)
  note A = run_system_keys [OF r(1)]
  note B = Cons.IH [OF r(2)]
  show ?case
  proof (cases "sy = ButtonSystem")
    case True
    with A B show ?thesis by simp
  next
    case False
    with A B show ?thesis by auto
  qed
qed

lemma frame_keys:
  assumes "frame inp order w = Inr w'" and "schedule_ok order"
  shows "set (map ui_key (entities w')) \<subseteq> set (map ui_key (entities w)) \<and>
    (close_requested w \<longrightarrow> close_requested w') \<and>
    (clicked_pending w \<and> primary_window w \<noteq> None \<longrightarrow> close_requested w') \<and> no_changed w'"
proof -
  from assms(1) obtain w1 ids where r: "run_systems inp order (w, []) = Inr (w1, ids)" "w' = despawn ids w1"
    by (auto simp: frame_def split: sum.splits)
  have bs: "ButtonSystem \<in> set order" using assms(2) by (simp add: schedule_ok_def)
  note A = run_systems_keys [OF r(1)]
  have "set (map ui_key (entities w')) \<subseteq> set (map ui_key (entities w1))"
    using r(2) by (auto simp: despawn_def)
  moreover have "close_requested w' = close_requested w1" using r(2) by (simp add: despawn_def close_requested_def)
  moreover have "no_changed w1 \<longrightarrow> no_changed w'" using r(2) by (simp add: despawn_def no_changed_def)
  ultimately show ?thesis using A bs by (simp add: set_map [symmetric] del: set_map)
qed

lemma clicked_pendingI:
  assumes "entity_inv (entities w)" and "clicked_ok w" and "b \<in> set (entities w)" and "button b"
    and "interaction b = Some Clicked"
  shows "clicked_pending w"
proof -
  have "button_query b"
    using assms by (auto simp: entity_inv_def buttons_complete_def clicked_ok_def button_query_def)
  with assms(3,5) show ?thesis by (auto simp: clicked_pending_def)
qed

lemma focus_step_facts:
  assumes "app_inv w"
  shows "app_inv (focus_step ev w)"
    and "clicked_ok w \<Longrightarrow> clicked_ok (focus_step ev w)"
    and "close_requested (focus_step ev w) = close_requested w"
    and "map (\<lambda>e. (eid e, button e)) (entities (focus_step ev w)) = map (\<lambda>e. (eid e, button e)) (entities w)"
proof -
  show "app_inv (focus_step ev w)"
    using assms by (auto simp: focus_step_def set_interaction_facts split: option.splits)
  show "clicked_ok w \<Longrightarrow> clicked_ok (focus_step ev w)"
    by (auto simp: focus_step_def clicked_ok_def set_interaction_def update_entity_def split: option.splits)
  show "close_requested (focus_step ev w) = close_requested w"
    by (simp add: focus_step_def set_interaction_def close_requested_def split: option.splits)
  show "map (\<lambda>e. (eid e, button e)) (entities (focus_step ev w)) = map (\<lambda>e. (eid e, button e)) (entities w)"
    by (simp add: focus_step_def set_interaction_def map_update_entity_inv split: option.splits)
qed

lemma focus_step_click:
  assumes "b \<in> set (entities w)" and "button b"
  shows "\<exists>b' \<in> set (entities (focus_step (Some (eid b, Clicked)) w)). button b' \<and> interaction b' = Some Clicked"
proof -
  let ?f = "\<lambda>e. if button e \<and> interaction e \<noteq> Some Clicked
             then e\<lparr>interaction := Some Clicked, interaction_changed := True\<rparr> else e"
  have "?f b \<in> set (entities (focus_step (Some (eid b, Clicked)) w))"
    using assms(1) by (auto simp: focus_step_def set_interaction_def update_entity_def)
  moreover have "button (?f b) \<and> interaction (?f b) = Some Clicked" using assms(2) by simp
  ultimately show ?thesis by blast
qed

lemma frame_button_kept:
  assumes "app_inv w" and "frame inp order w = Inr w'" and "b \<in> set (entities w)" and "button b"
  shows "\<exists>b' \<in> set (entities w'). eid b' = eid b \<and> button b'"
proof -
  from assms(2) obtain w1 ids where r: "run_systems inp order (w, []) = Inr (w1, ids)" "w' = despawn ids w1"
    by (auto simp: frame_def split: sum.splits)
  have "pending_ok w []" by (simp add: pending_ok_def)
  from run_systems_facts [OF assms(1) this, of inp order] r(1)
  have inv1: "app_inv w1" "pending_ok w1 ids" by auto
  from run_systems_keys [OF r(1)] have "map ui_key (entities w1) = map ui_key (entities w)" by blast
  from map_eq_set [OF this [symmetric] assms(3)] obtain b1 where
    b1: "b1 \<in> set (entities w1)" "eid b1 = eid b" "button b1" using assms(4) by (auto simp: ui_key_def)
  then have "node b1" using inv1(1) by (auto simp: app_inv_def entity_inv_def buttons_complete_def)
  then have "eid b1 \<notin> set ids" using inv1(2) b1(1) by (auto simp: pending_ok_def cull_query_def)
  with b1 r(2) show ?thesis by (auto simp: despawn_def)
qed

text \<open>One iteration of the loop from a world that is not closing: the frame returns, the
  invariants are kept, and a \<open>Clicked\<close> button either caused the close request or does not
  exist.\<close>

lemma iteration_facts:
  assumes "app_inv w" and "clicked_ok w" and "schedule_ok order"
    and "frame inp order (focus_step ev w) = Inr w'"
  shows "app_inv w' \<and> (close_requested w' \<or> clicked_ok w')"
    and "(\<exists>b \<in> set (entities (focus_step ev w)). button b \<and> interaction b = Some Clicked) \<Longrightarrow> close_requested w'"
proof -
  let ?w1 = "focus_step ev w"
  have inv1: "app_inv ?w1" and c1: "clicked_ok ?w1" using focus_step_facts assms(1,2) by blast+
  have win: "primary_window ?w1 \<noteq> None" using inv1 by (auto simp: app_inv_def split: option.splits)
  note K = frame_keys [OF assms(4,3)]
  show click: "close_requested w'" if "\<exists>b \<in> set (entities ?w1). button b \<and> interaction b = Some Clicked"
  proof -
    from that obtain b where "b \<in> set (entities ?w1)" "button b" "interaction b = Some Clicked" by blast
    then have "clicked_pending ?w1"
      using inv1 c1 by (intro clicked_pendingI) (auto simp: app_inv_def)
    with K win show ?thesis by blast
  qed
  have "app_inv w'" using frame_facts [OF inv1, of inp order] assms(4) by auto
  moreover have "close_requested w' \<or> clicked_ok w'"
  proof (cases "\<exists>b \<in> set (entities ?w1). button b \<and> interaction b = Some Clicked")
    case True
    then show ?thesis using click by blast
  next
    case False
    have "clicked_ok w'" unfolding clicked_ok_def
    proof (intro ballI impI)
      fix b' assume b': "b' \<in> set (entities w')" "button b' \<and> interaction b' = Some Clicked"
      then have "ui_key b' \<in> set (map ui_key (entities ?w1))" using K by auto
      then obtain b where "b \<in> set (entities ?w1)" "ui_key b = ui_key b'" by auto
      with b'(2) False show "interaction_changed b'" by (auto simp: ui_key_def)
    qed
    then show ?thesis by blast
  qed
  ultimately show "app_inv w' \<and> (close_requested w' \<or> clicked_ok w')" by blast
qed

lemma startup_clicked_ok: "clicked_ok startup_world"
  by (simp add: clicked_ok_def startup_entities_eval bundle_defs)

lemma reachable_clicked_ok: "reachable w \<Longrightarrow> close_requested w \<or> clicked_ok w"
proof (induction rule: reachable.induct)
  case startup
  then show ?case using startup_clicked_ok by (simp add: startup_world_def)
next
  case startup_swapped
  then show ?case using startup_clicked_ok by (simp add: clicked_ok_def startup_swapped_entities)
next
  case (step w w')
  have inv: "app_inv w" using step.hyps(1) by (rule reachable_app_inv)
  from step.hyps(2) show ?case
  proof (cases rule: app_step.cases)
    case (run_frame order inp)
    then have "frame inp order (focus_step None w) = Inr w'" by (simp add: focus_step_def)
    with iteration_facts(1) [OF inv _ run_frame(2) this] step.IH run_frame(1) show ?thesis by blast
  next
    case (focus bid act)
    then have "w' = focus_step (Some (bid, act)) w" by (simp add: focus_step_def)
    with focus_step_facts [OF inv] step.IH show ?thesis by metis
  qed
qed

lemma app_run_click:
  assumes "app_inv w" and "close_requested w \<or> clicked_ok w"
    and "\<exists>b \<in> set (entities w). eid b = bid \<and> button b"
    and "\<forall>i. schedule_ok (scheds i)" and "k \<le> j" and "focus j = Some (bid, Clicked)"
  shows "\<exists>w'. app_run inps scheds focus k w = Some (Inr w') \<and> close_requested w'"
  using assms
proof (induction "j - k" arbitrary: k w)
  case 0
  show ?case
  proof (cases "close_requested w")
    case True
    then show ?thesis by (simp add: app_run.simps)
  next
    case False
    let ?w1 = "focus_step (focus k) w"
    have k: "k = j" using 0 by simp
    have ok: "clicked_ok w" using False 0 by blast
    have inv1: "app_inv ?w1" using focus_step_facts(1) [OF 0(2)] by blast
    obtain w' where w': "frame (inps k) (scheds k) ?w1 = Inr w'"
      using frame_facts [OF inv1] by blast
    from 0(4) obtain b where b: "b \<in> set (entities w)" "eid b = bid" "button b" by blast
    have "\<exists>b' \<in> set (entities ?w1). button b' \<and> interaction b' = Some Clicked"
      using focus_step_click [OF b(1,3)] b(2) k 0(7) by simp
    then have c: "close_requested w'"
      using iteration_facts(2) [OF 0(2) ok _ w'] 0(5) by blast
    have "app_run inps scheds focus k w = app_run inps scheds focus (Suc k) w'"
      using False w' by (simp add: app_run.simps [of inps scheds focus k])
    also have "\<dots> = Some (Inr w')" using c by (simp add: app_run.simps)
    finally show ?thesis using c by blast
  qed
next
  case (Suc n)
  show ?case
  proof (cases "close_requested w")
    case True
    then show ?thesis by (simp add: app_run.simps)
  next
    case False
    let ?w1 = "focus_step (focus k) w"
    have ok: "clicked_ok w" using False Suc by blast
    have inv1: "app_inv ?w1" using focus_step_facts(1) [OF Suc(3)] by blast
    obtain w' where w': "frame (inps k) (scheds k) ?w1 = Inr w'"
      using frame_facts [OF inv1] by blast
    have it: "app_inv w' \<and> (close_requested w' \<or> clicked_ok w')"
      using iteration_facts(1) [OF Suc(3) ok _ w'] Suc(6) by blast
    from Suc(5) obtain b where b: "b \<in> set (entities w)" "eid b = bid" "button b" by blast
    have "\<exists>b1 \<in> set (entities ?w1). eid b1 = bid \<and> button b1"
      using map_eq_set [OF focus_step_facts(4) [OF Suc(3), of "focus k", symmetric] b(1)] b(2,3) by auto
    then obtain b1 where "b1 \<in> set (entities ?w1)" "eid b1 = bid" "button b1" by blast
    with frame_button_kept [OF inv1 w'] have pres: "\<exists>b' \<in> set (entities w'). eid b' = bid \<and> button b'"
      by metis
    have "n = j - Suc k" "Suc k \<le> j" using Suc(2) by arith+
    from Suc(1) [OF this(1) _ _ pres Suc(6) this(2) Suc(8)] it obtain w'' where
      "app_run inps scheds focus (Suc k) w' = Some (Inr w'') \<and> close_requested w''" by blast
    moreover have "app_run inps scheds focus k w = app_run inps scheds focus (Suc k) w'"
      using False w' by (simp add: app_run.simps [of inps scheds focus k])
    ultimately show ?thesis by auto
  qed
qed

lemma button_system_close_only:
  assumes "button_system w = Inr w'" and "close_requested w'"
  shows "close_requested w \<or> clicked_pending w"
proof -
  obtain w1 where w1: "button_loop (filter button_query (entities w)) w = Inr w1"
      "w' = clear_interaction_changed w1"
    using assms(1) by (auto simp: button_system_def split: sum.splits)
  show ?thesis
  proof (cases "primary_window w")
    case None
    with button_loop_no_window [OF w1(1)] w1(2) assms(2) show ?thesis
      by (simp add: close_requested_def clear_interaction_changed_def)
  next
    case (Some win)
    let ?cl = "filter (\<lambda>b. interaction b = Some Clicked \<and> children b \<noteq> None) (filter button_query (entities w))"
    from button_loop_window [OF w1(1) Some] w1(2) assms(2)
    have "Close \<in> set (command_queue win) \<or> ?cl \<noteq> []"
      by (auto simp: close_requested_def clear_interaction_changed_def)
    then show ?thesis
    proof
      assume "Close \<in> set (command_queue win)"
      with Some show ?thesis by (simp add: close_requested_def)
    next
      assume "?cl \<noteq> []"
      then obtain b where "b \<in> set ?cl" using list.set_sel(1) by blast
      then show ?thesis by (auto simp: clicked_pending_def)
    qed
  qed
qed

lemma move_cam_close_only:
  assumes "move_cam inp w = Inr w'" and "close_requested w'"
  shows "close_requested w"
  using assms(1)
proof (cases rule: move_cam_cases)
  case no_window
  with assms(2) show ?thesis by simp
next
  case (frame win cam)
  with assms(2) show ?thesis by (auto simp: close_requested_def toggle_grab_cursor_queue split: if_splits)
qed

lemma no_clicked_keys:
  "set (map ui_key (entities w')) \<subseteq> set (map ui_key (entities w)) \<Longrightarrow> no_clicked w \<Longrightarrow> no_clicked w'"
  by (force simp: no_clicked_def ui_key_def)

lemma run_system_no_close:
  assumes "run_system inp sy (w, d) = Inr (w', d')" and "no_clicked w" and "\<not> close_requested w"
  shows "no_clicked w' \<and> \<not> close_requested w'"
proof -
  have eq: "map ui_key (entities w') = map ui_key (entities w)"
    using run_system_keys [OF assms(1)] by (rule conjunct1)
  have nc: "no_clicked w'" by (rule no_clicked_keys [OF _ assms(2)]) (simp only: eq order_refl)
  have np: "\<not> clicked_pending w"
    using assms(2) unfolding no_clicked_def clicked_pending_def button_query_def by blast
  have "\<not> close_requested w'"
  proof (cases sy)
    case ButtonSystem
    with assms(1) have "button_system w = Inr w'" by (simp split: sum.splits)
    from button_system_close_only [OF this] np assms(3) show ?thesis by blast
  next
    case MoveCam
    with assms(1) have "move_cam inp w = Inr w'" by (simp split: sum.splits)
    from move_cam_close_only [OF this] assms(3) show ?thesis by blast
  next
    case EnforceRenderDistance
    with assms(1) have "w' = w" by (simp split: sum.splits)
    with assms(3) show ?thesis by simp
  qed
  with nc show ?thesis by blast
qed

lemma run_systems_no_close:
  "run_systems inp sys (w, d) = Inr (w', d') \<Longrightarrow> no_clicked w \<Longrightarrow> \<not> close_requested w \<Longrightarrow>
   no_clicked w' \<and> \<not> close_requested w'"
proof (induction sys arbitrary: w d)
  case Nil
  then show ?case by simp
next
  case (Cons sy sys)
  then obtain w1 d1 where r: "run_system inp sy (w, d) = Inr (w1, d1)" "run_systems inp sys (w1, d1) = Inr (w', d')"
    by (auto split: sum.splits)
  with run_system_no_close [OF r(1)] Cons show ?case by blast
qed

lemma frame_no_close:
  assumes "frame inp order w = Inr w'" and "no_clicked w" and "\<not> close_requested w"
  shows "no_clicked w' \<and> \<not> close_requested w'"
proof -
  from assms(1) obtain w1 ids where r: "run_systems inp order (w, []) = Inr (w1, ids)" "w' = despawn ids w1"
    by (auto simp: frame_def split: sum.splits)
  from run_systems_no_close [OF r(1) assms(2,3)] r(2) show ?thesis
    by (auto simp: despawn_def close_requested_def no_clicked_def)
qed

lemma focus_step_no_click:
  "no_clicked w \<Longrightarrow> (\<forall>bid. ev \<noteq> Some (bid, Clicked)) \<Longrightarrow> no_clicked (focus_step ev w)"
  by (auto simp: no_clicked_def focus_step_def set_interaction_def update_entity_def split: option.splits if_splits)

lemma app_run_no_click:
  assumes "app_run inps scheds focus k w = Some r"
  shows "app_inv w \<longrightarrow> \<not> close_requested w \<longrightarrow> no_clicked w \<longrightarrow>
    (\<forall>i. \<forall>bid. focus (k + i) \<noteq> Some (bid, Clicked)) \<longrightarrow> (\<forall>i. schedule_ok (scheds i)) \<longrightarrow> False"
proof (rule app_run.raw_induct [where P = "\<lambda>inps scheds focus k w r. app_inv w \<longrightarrow> \<not> close_requested w \<longrightarrow>
    no_clicked w \<longrightarrow> (\<forall>i. \<forall>bid. focus (k + i) \<noteq> Some (bid, Clicked)) \<longrightarrow> (\<forall>i. schedule_ok (scheds i)) \<longrightarrow> False",
    OF _ assms])
  fix f inps scheds focus k w r
  assume IH: "\<And>inps scheds focus k w r. f inps scheds focus k w = Some r \<Longrightarrow> app_inv w \<longrightarrow>
      \<not> close_requested w \<longrightarrow> no_clicked w \<longrightarrow> (\<forall>i. \<forall>bid. focus (k + i) \<noteq> Some (bid, Clicked)) \<longrightarrow>
      (\<forall>i. schedule_ok (scheds i)) \<longrightarrow> False"
    and eq: "(if close_requested w then Some (Inr w)
       else case frame (inps k) (scheds k) (focus_step (focus k) w) of
              Inl err \<Rightarrow> Some (Inl err) | Inr w' \<Rightarrow> f inps scheds focus (Suc k) w') = Some r"
  show "app_inv w \<longrightarrow> \<not> close_requested w \<longrightarrow> no_clicked w \<longrightarrow>
      (\<forall>i. \<forall>bid. focus (k + i) \<noteq> Some (bid, Clicked)) \<longrightarrow> (\<forall>i. schedule_ok (scheds i)) \<longrightarrow> False"
  proof (intro impI)
    assume inv: "app_inv w" and nc: "\<not> close_requested w" and ncl: "no_clicked w"
      and fo: "\<forall>i. \<forall>bid. focus (k + i) \<noteq> Some (bid, Clicked)" and sc: "\<forall>i. schedule_ok (scheds i)"
    let ?w1 = "focus_step (focus k) w"
    have inv1: "app_inv ?w1" using focus_step_facts(1) [OF inv] by blast
    obtain w' where w': "frame (inps k) (scheds k) ?w1 = Inr w'" using frame_facts [OF inv1] by blast
    have "\<forall>bid. focus k \<noteq> Some (bid, Clicked)" using fo spec [OF fo, of 0] by simp
    then have ncl1: "no_clicked ?w1" by (rule focus_step_no_click [OF ncl])
    have nc1: "\<not> close_requested ?w1" using nc focus_step_facts(3) [OF inv] by simp
    have inv': "app_inv w'" using frame_facts [OF inv1, of "inps k" "scheds k"] w' by auto
    from frame_no_close [OF w' ncl1 nc1] have n': "no_clicked w'" "\<not> close_requested w'" by blast+
    have fo': "\<forall>i. \<forall>bid. focus (Suc k + i) \<noteq> Some (bid, Clicked)"
      using fo by (metis add_Suc_shift)
    from eq nc w' have "f inps scheds focus (Suc k) w' = Some r" by simp
    from IH [OF this] inv' n' fo' sc show False by blast
  qed
qed

section \<open>How the program ends\<close>

text \<open>C28. Termination: from any reachable world, if the engine's focus system reports a
  click on a button of the world at some later frame, the run loop ends, with no panic and
  with the window's close request queued, whatever the executor's orders and the inputs.\<close>

theorem quit_click_ends_run:
  assumes "reachable w" and "b \<in> set (entities w)" and "button b"
    and "\<forall>i. schedule_ok (scheds i)" and "k \<le> j" and "focus j = Some (eid b, Clicked)"
  shows "\<exists>w'. app_run inps scheds focus k w = Some (Inr w') \<and> close_requested w'"
  using app_run_click [OF reachable_app_inv [OF assms(1)] reachable_clicked_ok [OF assms(1)] _ assms(4,5)]
    assms(2,3,6) by blast

theorem quit_click_ends_run_witness:
  "reachable startup_world \<and> button_bundle 8 Color_GRAY 5 [9] \<in> set (entities startup_world) \<and>
   button (button_bundle 8 Color_GRAY 5 [9]) \<and>
   (\<forall>i. schedule_ok ((\<lambda>_. [ButtonSystem, MoveCam, EnforceRenderDistance]) i)) \<and> (0::nat) \<le> 2 \<and>
   (\<lambda>i. if i = (2::nat) then Some (8, Clicked) else None) 2 = Some (eid (button_bundle 8 Color_GRAY 5 [9]), Clicked) \<and>
   (\<exists>w'. app_run (\<lambda>_. \<lparr>keys_pressed = [KeyW], keys_just_pressed = [], mouse_motion = []\<rparr>)
      (\<lambda>_. [ButtonSystem, MoveCam, EnforceRenderDistance]) (\<lambda>i. if i = 2 then Some (8, Clicked) else None)
      0 startup_world = Some (Inr w') \<and> close_requested w')"
proof -
  have h: "button_bundle 8 Color_GRAY 5 [9] \<in> set (entities startup_world)"
    "button (button_bundle 8 Color_GRAY 5 [9])"
    "\<forall>i. schedule_ok ((\<lambda>_. [ButtonSystem, MoveCam, EnforceRenderDistance]) i)" "(0::nat) \<le> 2"
    "(\<lambda>i. if i = (2::nat) then Some (8, Clicked) else None) 2 = Some (eid (button_bundle 8 Color_GRAY 5 [9]), Clicked)"
    by (simp_all add: startup_entities_eval bundle_defs schedule_ok_def)
  note r = quit_click_ends_run [where w = startup_world and b = "button_bundle 8 Color_GRAY 5 [9]"
      and scheds = "\<lambda>_. [ButtonSystem, MoveCam, EnforceRenderDistance]" and k = 0 and j = 2
      and focus = "\<lambda>i. if i = 2 then Some (8, Clicked) else None"
      and inps = "\<lambda>_. \<lparr>keys_pressed = [KeyW], keys_just_pressed = [], mouse_motion = []\<rparr>"]
  from r [OF reachable_startup_world h(1,2,3,4,5)] h reachable_startup_world
  show ?thesis by blast
qed

text \<open>C29. Without a click the program runs forever: from a reachable world with no close
  request and no button in the \<open>Clicked\<close> state, if the focus system never reports a
  click from frame \<open>k\<close> on, the run loop never returns: it neither panics nor closes.\<close>

theorem no_click_runs_forever:
  assumes "reachable w" and "\<not> close_requested w"
    and "\<not> (\<exists>b \<in> set (entities w). button b \<and> interaction b = Some Clicked)"
    and "\<forall>i. \<forall>bid. focus (k + i) \<noteq> Some (bid, Clicked)" and "\<forall>i. schedule_ok (scheds i)"
  shows "app_run inps scheds focus k w = None"
proof (rule ccontr)
  assume "app_run inps scheds focus k w \<noteq> None"
  then obtain r where "app_run inps scheds focus k w = Some r" by blast
  from app_run_no_click [OF this] reachable_app_inv [OF assms(1)] assms(2-5) show False
    by (simp add: no_clicked_def)
qed

theorem no_click_runs_forever_witness:
  "reachable startup_world \<and> \<not> close_requested startup_world \<and>
   \<not> (\<exists>b \<in> set (entities startup_world). button b \<and> interaction b = Some Clicked) \<and>
   (\<forall>i. \<forall>bid. (\<lambda>_::nat. None :: (nat \<times> interaction) option) (0 + i) \<noteq> Some (bid, Clicked)) \<and>
   (\<forall>i. schedule_ok ((\<lambda>_::nat. [MoveCam, ButtonSystem, EnforceRenderDistance]) i)) \<and>
   app_run (\<lambda>_. \<lparr>keys_pressed = [KeyW], keys_just_pressed = [KeyEscape], mouse_motion = []\<rparr>)
     (\<lambda>_. [MoveCam, ButtonSystem, EnforceRenderDistance]) (\<lambda>_. None) 0 startup_world = None"
proof -
  have h: "\<not> close_requested startup_world"
    "\<not> (\<exists>b \<in> set (entities startup_world). button b \<and> interaction b = Some Clicked)"
    "\<forall>i. \<forall>bid. (\<lambda>_::nat. None :: (nat \<times> interaction) option) (0 + i) \<noteq> Some (bid, Clicked)"
    "\<forall>i. schedule_ok ((\<lambda>_::nat. [MoveCam, ButtonSystem, EnforceRenderDistance]) i)"
    by (simp_all add: close_requested_def startup_world_window startup_entities_eval bundle_defs
        schedule_ok_def insert_commute)
  note r = no_click_runs_forever [where w = startup_world and k = 0 and focus = "\<lambda>_. None"
      and scheds = "\<lambda>_. [MoveCam, ButtonSystem, EnforceRenderDistance]"
      and inps = "\<lambda>_. \<lparr>keys_pressed = [KeyW], keys_just_pressed = [KeyEscape], mouse_motion = []\<rparr>"]
  from r [OF reachable_startup_world h] h reachable_startup_world show ?thesis by blast
qed

end
