(* ===== verification/Schedule.thy ===== *)
theory Schedule
  imports Quit
begin

text \<open>
  What the executor's freedom means for a frame (\<open>main.rs\<close> lines 24--26). The three
  update systems touch different parts of the world: \<open>button_system\<close> the texts, colours,
  change flags and the window's close request; \<open>move_cam\<close> the camera transform, the look
  state and, on Escape, the cursor and the overlay; \<open>enforce_render_distance\<close> only reads.
  Without Escape, \<open>button_system\<close> commutes with \<open>move_cam\<close>, and the culling pass does not
  see what \<open>button_system\<close> wrote, so of the six admissible orders only one fact matters:
  whether \<open>move_cam\<close> runs before \<open>enforce_render_distance\<close>. \<open>canonical_order\<close> is the
  reference schedule for each case.
\<close>

section \<open>Definitions\<close>

fun moves_before :: "system list \<Rightarrow> bool" where
  "moves_before [] = False"
| "moves_before (s # ss) =
     (if s = MoveCam then True else if s = EnforceRenderDistance then False else moves_before ss)"

definition canonical_order :: "bool \<Rightarrow> system list" where
  "canonical_order mf =
     (if mf then [MoveCam, EnforceRenderDistance, ButtonSystem]
      else [EnforceRenderDistance, MoveCam, ButtonSystem])"

section \<open>Updates that commute\<close>

lemma update_entity_commute:
  assumes "\<And>e. f (g e) = g (f e)" and "\<And>e. eid (f e) = eid e" and "\<And>e. eid (g e) = eid e"
  shows "update_entity i f (update_entity j g es) = update_entity j g (update_entity i f es)"
  using assms by (induction es) (auto simp: update_entity_def)

lemma map_update_entity_comm:
  assumes "\<And>e. s (g e) = g (s e)" and "\<And>e. eid (s e) = eid e"
  shows "map s (update_entity c g es) = update_entity c g (map s es)"
  using assms by (induction es) (auto simp: update_entity_def)

text \<open>The camera write of \<open>move_cam\<close>, as a function of the world.\<close>

lemma button_step_cam:
  assumes "button_step act bid chs w = Inr w'"
  shows "button_step act bid chs (w\<lparr>entities := update_entity c (\<lambda>e. e\<lparr>transform := T\<rparr>) (entities w), input_res := S\<rparr>) =
    Inr (w'\<lparr>entities := update_entity c (\<lambda>e. e\<lparr>transform := T\<rparr>) (entities w'), input_res := S\<rparr>)"
proof -
  obtain c0 cs te secs where c: "chs = c0 # cs" "find_entity c0 (entities w) = Some te"
      "text_sections te = Some secs" "secs \<noteq> []"
    using assms by (auto simp: button_step_def split: list.splits option.splits if_splits)
  let ?g = "\<lambda>e. e\<lparr>transform := T\<rparr>"
  let ?ft = "\<lambda>e. e\<lparr>text_sections := Some (secs[0 := fst (button_look act)])\<rparr>"
  let ?fc = "\<lambda>e. e\<lparr>ui_color := Some (snd (button_look act))\<rparr>"
  have w': "w' = w\<lparr>entities := update_entity bid ?fc (update_entity c0 ?ft (entities w)),
      primary_window := (if act = Clicked then map_option window_close (primary_window w) else primary_window w)\<rparr>"
    using assms c by (simp add: button_step_ok)
  have f': "find_entity c0 (update_entity c ?g (entities w)) = Some (if c0 = c then ?g te else te)"
    using c(2) by (cases "c0 = c") (simp_all add: find_entity_update)
  have "update_entity bid ?fc (update_entity c0 ?ft (update_entity c ?g (entities w))) =
      update_entity c ?g (update_entity bid ?fc (update_entity c0 ?ft (entities w)))"
    by (simp add: update_entity_commute)
  with f' c show ?thesis by (simp add: button_step_ok w')
qed

lemma button_loop_cam:
  "button_loop bs w = Inr w' \<Longrightarrow>
   button_loop bs (w\<lparr>entities := update_entity c (\<lambda>e. e\<lparr>transform := T\<rparr>) (entities w), input_res := S\<rparr>) =
     Inr (w'\<lparr>entities := update_entity c (\<lambda>e. e\<lparr>transform := T\<rparr>) (entities w'), input_res := S\<rparr>)"
proof (induction bs arbitrary: w)
  case Nil
  then show ?case by simp
next
  case (Cons b bs)
  show ?case
  proof (cases "\<exists>act chs. interaction b = Some act \<and> children b = Some chs")
    case True
    then obtain act chs where b: "interaction b = Some act" "children b = Some chs" by blast
    with Cons.prems obtain w1 where w1: "button_step act (eid b) chs w = Inr w1" "button_loop bs w1 = Inr w'"
      by (auto split: sum.splits)
    from Cons.IH [OF w1(2)] b button_step_cam [OF w1(1)] show ?thesis by simp
  next
    case False
    then have "button_loop (b # bs) v = button_loop bs v" for v by (auto split: option.splits)
    with False Cons.prems Cons.IH show ?thesis by simp
  qed
qed

lemma button_loop_cong:
  "map (\<lambda>b. (interaction b, children b, eid b)) bs' = map (\<lambda>b. (interaction b, children b, eid b)) bs \<Longrightarrow>
   button_loop bs' w = button_loop bs w"
proof (induction bs arbitrary: bs' w)
  case Nil
  then show ?case by simp
next
  case (Cons b bs)
  then obtain b' bs'' where b': "bs' = b' # bs''" "interaction b' = interaction b" "children b' = children b"
      "eid b' = eid b" "map (\<lambda>b. (interaction b, children b, eid b)) bs'' = map (\<lambda>b. (interaction b, children b, eid b)) bs"
    by (cases bs') auto
  have ih: "button_loop bs'' = button_loop bs" by (rule ext) (rule Cons.IH [OF b'(5)])
  show ?case by (simp only: b'(1) button_loop.simps b'(2,3,4) ih)
qed

lemma filter_button_query_cam:
  "map (\<lambda>b. (interaction b, children b, eid b))
     (filter button_query (update_entity c (\<lambda>e. e\<lparr>transform := T\<rparr>) es)) =
   map (\<lambda>b. (interaction b, children b, eid b)) (filter button_query es)"
  by (induction es) (auto simp: update_entity_def button_query_def)

lemma button_system_cam:
  assumes "button_system w = Inr w'"
  shows "button_system (w\<lparr>entities := update_entity c (\<lambda>e. e\<lparr>transform := T\<rparr>) (entities w), input_res := S\<rparr>) =
    Inr (w'\<lparr>entities := update_entity c (\<lambda>e. e\<lparr>transform := T\<rparr>) (entities w'), input_res := S\<rparr>)"
proof -
  obtain w1 where w1: "button_loop (filter button_query (entities w)) w = Inr w1"
      "w' = clear_interaction_changed w1"
    using assms by (auto simp: button_system_def split: sum.splits)
  let ?tr = "\<lambda>v. v\<lparr>entities := update_entity c (\<lambda>e. e\<lparr>transform := T\<rparr>) (entities v), input_res := S\<rparr>"
  have "button_loop (filter button_query (entities (?tr w))) (?tr w) =
      button_loop (filter button_query (entities w)) (?tr w)"
    by (rule button_loop_cong) (simp add: filter_button_query_cam)
  also have "\<dots> = Inr (?tr w1)" by (rule button_loop_cam [OF w1(1)])
  finally have "button_system (?tr w) = Inr (clear_interaction_changed (?tr w1))"
    by (simp add: button_system_def)
  moreover have "clear_interaction_changed (?tr w1) = ?tr (clear_interaction_changed w1)"
    by (simp add: clear_interaction_changed_def map_update_entity_comm)
  ultimately show ?thesis using w1(2) by simp
qed

lemma move_cam_no_escape:
  assumes "KeyEscape \<notin> set (keys_just_pressed inp)" and "primary_window w = Some win"
    and "query_single camera3d (entities w) = Inr cam"
  shows "move_cam inp w = Inr (w\<lparr>entities := update_entity (eid cam) (\<lambda>e. e\<lparr>transform :=
      snd (mouse_look win (mouse_motion inp) (input_res w, move_keys (keys_pressed inp) (transform cam)))\<rparr>) (entities w),
      input_res := fst (mouse_look win (mouse_motion inp) (input_res w, move_keys (keys_pressed inp) (transform cam)))\<rparr>)"
proof -
  have "w\<lparr>primary_window := Some win\<rparr> = w" using assms(2) by simp
  with assms show ?thesis by (simp add: move_cam_def Let_def split: prod.splits)
qed

lemma mouse_look_window_cong:
  assumes "cursor_locked win' = cursor_locked win" and "win_height win' = win_height win"
    and "win_width win' = win_width win"
  shows "mouse_look win' evs s = mouse_look win evs s"
proof (induction evs arbitrary: s)
  case Nil
  then show ?case by (cases s) simp
next
  case (Cons ev evs)
  have "mouse_delta win' ev = mouse_delta win ev" using assms by (simp add: mouse_delta_def fun_eq_iff)
  with Cons show ?case by (cases s) (simp add: Let_def)
qed

lemma query_single_map:
  assumes "\<And>e. P (g e) = P e"
  shows "query_single P (map g es) = map_sum id g (query_single P es)"
proof -
  have "filter P (map g es) = map g (filter P es)" by (simp add: filter_map comp_def assms)
  then show ?thesis by (simp add: query_single_def split: list.splits)
qed

lemma button_system_camera:
  assumes "button_system w = Inr w'" and "query_single camera3d (entities w) = Inr cam"
  obtains cam' where "query_single camera3d (entities w') = Inr cam'" "eid cam' = eid cam"
    "transform cam' = transform cam"
proof -
  have cs: "camera3d (strip_ui e) = camera3d e" for e by (simp add: strip_ui_def)
  note q = query_single_map [where P = camera3d and g = strip_ui, OF cs]
  have "map_sum id strip_ui (query_single camera3d (entities w')) =
      query_single camera3d (map strip_ui (entities w'))" by (rule q [symmetric])
  also have "\<dots> = query_single camera3d (map strip_ui (entities w))"
    by (simp only: button_system_strip(1) [OF assms(1)])
  also have "\<dots> = Inr (strip_ui cam)" by (simp only: q assms(2) map_sum.simps id_def)
  finally have m: "map_sum id strip_ui (query_single camera3d (entities w')) = Inr (strip_ui cam)" .
  then obtain cam' where q': "query_single camera3d (entities w') = Inr cam'" and st: "strip_ui cam' = strip_ui cam"
    by (cases "query_single camera3d (entities w')") auto
  have "eid cam' = eid cam" using arg_cong [OF st, of eid] by (simp add: strip_ui_def)
  moreover have "transform cam' = transform cam" using arg_cong [OF st, of transform] by (simp add: strip_ui_def)
  ultimately show ?thesis using that q' by blast
qed

lemma button_loop_input: "button_loop bs w = Inr w' \<Longrightarrow> input_res w' = input_res w"
proof (induction bs w rule: button_loop.induct)
  case (2 b bs w)
  then show ?case
    by (auto simp: button_step_def Let_def split: option.splits sum.splits list.splits if_splits prod.splits)
qed simp

lemma button_system_window_full:
  assumes "button_system w = Inr w'" and "primary_window w = Some win"
  obtains q where "primary_window w' = Some (win\<lparr>command_queue := q\<rparr>)" and "input_res w' = input_res w"
proof -
  obtain w1 where w1: "button_loop (filter button_query (entities w)) w = Inr w1"
      "w' = clear_interaction_changed w1"
    using assms(1) by (auto simp: button_system_def split: sum.splits)
  from button_loop_window [OF w1(1) assms(2)] button_loop_input [OF w1(1)] w1(2) that show ?thesis
    by (simp add: clear_interaction_changed_def)
qed

lemma enforce_strip:
  "enforce_render_distance v = enforce_render_distance (v\<lparr>entities := map strip_ui (entities v)\<rparr>)"
proof -
  have cs: "camera3d (strip_ui e) = camera3d e" for e by (simp add: strip_ui_def)
  have p: "(cull_query (strip_ui e) \<and> beyond_render_distance c (strip_ui e)) =
      (cull_query e \<and> beyond_render_distance c e)" for c e
    by (simp add: strip_ui_def cull_query_def beyond_render_distance_def)
  have t: "transform (strip_ui e) = transform e" "eid (strip_ui e) = eid e" for e by (simp_all add: strip_ui_def)
  show ?thesis
    by (cases "query_single camera3d (entities v)")
       (simp_all add: enforce_render_distance_def query_single_map [where P = camera3d and g = strip_ui, OF cs]
         filter_map comp_def p t)
qed

lemma enforce_strip_eq:
  "map strip_ui (entities v') = map strip_ui (entities v) \<Longrightarrow>
   enforce_render_distance v' = enforce_render_distance v"
proof -
  assume eq: "map strip_ui (entities v') = map strip_ui (entities v)"
  have ent: "enforce_render_distance u' = enforce_render_distance u" if "entities u' = entities u" for u u'
    using that by (simp add: enforce_render_distance_def split: sum.split)
  have "enforce_render_distance v' = enforce_render_distance (v'\<lparr>entities := map strip_ui (entities v')\<rparr>)"
    by (rule enforce_strip)
  also have "\<dots> = enforce_render_distance (v\<lparr>entities := map strip_ui (entities v)\<rparr>)"
    by (rule ent) (simp add: eq)
  also have "\<dots> = enforce_render_distance v" by (rule enforce_strip [symmetric])
  finally show ?thesis .
qed

lemma systems_commute:
  assumes "app_inv w" and "KeyEscape \<notin> set (keys_just_pressed inp)"
  obtains wb wm wbm where "button_system w = Inr wb" "move_cam inp w = Inr wm"
    "button_system wm = Inr wbm" "move_cam inp wb = Inr wbm"
    "enforce_render_distance wb = enforce_render_distance w"
    "enforce_render_distance wbm = enforce_render_distance wm"
proof -
  obtain win where win: "primary_window w = Some win"
    using assms(1) by (auto simp: app_inv_def split: option.splits)
  have "\<exists>cam. query_single camera3d (entities w) = Inr cam"
    using assms(1) by (simp add: app_inv_def entity_inv_def query_single_Inr_iff_length)
  then obtain cam where cam: "query_single camera3d (entities w) = Inr cam" by blast
  let ?ml = "mouse_look win (mouse_motion inp) (input_res w, move_keys (keys_pressed inp) (transform cam))"
  let ?g = "\<lambda>e. e\<lparr>transform := snd ?ml\<rparr>"
  let ?tr = "\<lambda>v. v\<lparr>entities := update_entity (eid cam) ?g (entities v), input_res := fst ?ml\<rparr>"
  have m: "move_cam inp w = Inr (?tr w)" by (rule move_cam_no_escape [OF assms(2) win cam])
  obtain wb where b: "button_system w = Inr wb" using button_system_facts [OF assms(1)] by blast
  have bm: "button_system (?tr w) = Inr (?tr wb)" by (rule button_system_cam [OF b])
  obtain q where wbwin: "primary_window wb = Some (win\<lparr>command_queue := q\<rparr>)" "input_res wb = input_res w"
    by (rule button_system_window_full [OF b win])
  obtain cam' where cam': "query_single camera3d (entities wb) = Inr cam'" "eid cam' = eid cam"
      "transform cam' = transform cam"
    by (rule button_system_camera [OF b cam])
  have ml: "mouse_look (win\<lparr>command_queue := q\<rparr>) evs s = mouse_look win evs s" for evs s
    by (rule mouse_look_window_cong) simp_all
  have mb: "move_cam inp wb = Inr (?tr wb)"
    using move_cam_no_escape [OF assms(2) wbwin(1) cam'(1)] cam'(2,3) wbwin(2) ml by simp
  have e1: "enforce_render_distance wb = enforce_render_distance w"
    by (rule enforce_strip_eq) (rule button_system_strip(1) [OF b])
  have sc: "map strip_ui (update_entity (eid cam) ?g es) = update_entity (eid cam) ?g (map strip_ui es)" for es
    by (rule map_update_entity_comm) (simp_all add: strip_ui_def)
  have e2: "enforce_render_distance (?tr wb) = enforce_render_distance (?tr w)"
    by (rule enforce_strip_eq) (simp add: sc button_system_strip(1) [OF b])
  show ?thesis using that [OF b m bm mb e1 e2] .
qed

lemma schedule_ok_cases:
  assumes "schedule_ok order"
  shows "order \<in> {[ButtonSystem, MoveCam, EnforceRenderDistance], [ButtonSystem, EnforceRenderDistance, MoveCam],
    [MoveCam, ButtonSystem, EnforceRenderDistance], [MoveCam, EnforceRenderDistance, ButtonSystem],
    [EnforceRenderDistance, ButtonSystem, MoveCam], [EnforceRenderDistance, MoveCam, ButtonSystem]}"
proof -
  have d: "distinct order" and st: "set order = {ButtonSystem, MoveCam, EnforceRenderDistance}"
    using assms by (simp_all add: schedule_ok_def)
  have "card {ButtonSystem, MoveCam, EnforceRenderDistance} = 3" by simp
  then have "length order = 3" using distinct_card [OF d] st by simp
  then obtain a b c where o: "order = [a, b, c]"
    by (auto simp: length_Suc_conv numeral_3_eq_3)
  with assms show ?thesis by (cases a; cases b; cases c) (auto simp: schedule_ok_def)
qed

lemma frame_order_canonical:
  assumes "app_inv w" and "KeyEscape \<notin> set (keys_just_pressed inp)" and "schedule_ok order"
  shows "frame inp order w = frame inp (canonical_order (moves_before order)) w"
proof -
  obtain wb wm wbm where f: "button_system w = Inr wb" "move_cam inp w = Inr wm"
      "button_system wm = Inr wbm" "move_cam inp wb = Inr wbm"
      "enforce_render_distance wb = enforce_render_distance w"
      "enforce_render_distance wbm = enforce_render_distance wm"
    by (rule systems_commute [OF assms(1,2)])
  have "app_inv wm" using move_cam_facts [OF assms(1), of inp] f(2) by auto
  then obtain i1 where i1: "enforce_render_distance wm = Inr i1" using enforce_facts by blast
  obtain i0 where i0: "enforce_render_distance w = Inr i0" using enforce_facts [OF assms(1)] by blast
  from schedule_ok_cases [OF assms(3)] show ?thesis
    by (auto simp: frame_def canonical_order_def f i0 i1)
qed

lemma button_system_queue:
  assumes "button_system w = Inr w'" and "primary_window w = Some win"
  shows "primary_window w' = Some (win\<lparr>command_queue := command_queue win @
     replicate (length (filter (\<lambda>b. interaction b = Some Clicked \<and> children b \<noteq> None)
       (filter button_query (entities w)))) Close\<rparr>)"
proof -
  obtain w1 where w1: "button_loop (filter button_query (entities w)) w = Inr w1"
      "w' = clear_interaction_changed w1"
    using assms(1) by (auto simp: button_system_def split: sum.splits)
  with button_loop_window [OF w1(1) assms(2)] show ?thesis by (simp add: clear_interaction_changed_def)
qed

lemma move_cam_escape_window:
  assumes "move_cam inp w = Inr w'" and "primary_window w = Some win"
    and "KeyEscape \<in> set (keys_just_pressed inp)"
  shows "primary_window w' = Some (toggle_grab_cursor win)"
  using assms(1)
proof (cases rule: move_cam_cases)
  case no_window
  with assms(2) show ?thesis by simp
next
  case (frame win' cam)
  with assms(2,3) show ?thesis by simp
qed

lemma length_filter_map_eq:
  "map h xs = map h ys \<Longrightarrow> length (filter (\<lambda>e. Q (h e)) xs) = length (filter (\<lambda>e. Q (h e)) ys)"
proof -
  assume eq: "map h xs = map h ys"
  have "length (filter (\<lambda>e. Q (h e)) zs) = length (filter Q (map h zs))" for zs
    by (simp add: filter_map comp_def)
  with eq show ?thesis by metis
qed

lemma move_cam_click_count:
  assumes "move_cam inp w = Inr w'"
  shows "length (filter (\<lambda>b. interaction b = Some Clicked \<and> children b \<noteq> None) (filter button_query (entities w'))) =
    length (filter (\<lambda>b. interaction b = Some Clicked \<and> children b \<noteq> None) (filter button_query (entities w)))"
proof -
  let ?h = "\<lambda>e. (button_query e, interaction e, children e)"
  from move_cam_strip [OF assms] have "map strip_cam (entities w') = map strip_cam (entities w)" by blast
  then have "map ?h (entities w') = map ?h (entities w)"
    by (rule map_strip_eq) (simp add: strip_cam_def button_query_def)
  note l = length_filter_map_eq [OF this, of "\<lambda>(q, i, c). q \<and> i = Some Clicked \<and> c \<noteq> None"]
  have f: "filter (\<lambda>b. interaction b = Some Clicked \<and> children b \<noteq> None) (filter button_query es) =
      filter (\<lambda>e. (\<lambda>(q, i, c). q \<and> i = Some Clicked \<and> c \<noteq> None) (?h e)) es" for es
    by (simp add: filter_filter)
  show ?thesis by (simp only: f l)
qed

lemma frame_BM_window:
  assumes "frame inp [ButtonSystem, MoveCam, EnforceRenderDistance] w = Inr w'"
    and "primary_window w = Some win" and "KeyEscape \<in> set (keys_just_pressed inp)"
  shows "primary_window w' = Some (toggle_grab_cursor (win\<lparr>command_queue := command_queue win @
     replicate (length (filter (\<lambda>b. interaction b = Some Clicked \<and> children b \<noteq> None)
       (filter button_query (entities w)))) Close\<rparr>))"
proof -
  from assms(1) obtain wb wm ids where r: "button_system w = Inr wb" "move_cam inp wb = Inr wm"
      "enforce_render_distance wm = Inr ids" "w' = despawn ids wm"
    by (auto simp: frame_def split: sum.splits)
  from move_cam_escape_window [OF r(2) button_system_queue [OF r(1) assms(2)] assms(3)] r(4)
  show ?thesis by (simp add: despawn_def)
qed

lemma frame_MB_window:
  assumes "frame inp [MoveCam, ButtonSystem, EnforceRenderDistance] w = Inr w'"
    and "primary_window w = Some win" and "KeyEscape \<in> set (keys_just_pressed inp)"
  shows "primary_window w' = Some ((toggle_grab_cursor win)\<lparr>command_queue :=
     command_queue (toggle_grab_cursor win) @
     replicate (length (filter (\<lambda>b. interaction b = Some Clicked \<and> children b \<noteq> None)
       (filter button_query (entities w)))) Close\<rparr>)"
proof -
  from assms(1) obtain wm wb ids where r: "move_cam inp w = Inr wm" "button_system wm = Inr wb"
      "enforce_render_distance wb = Inr ids" "w' = despawn ids wb"
    by (auto simp: frame_def split: sum.splits)
  from button_system_queue [OF r(2) move_cam_escape_window [OF r(1) assms(2,3)]] r(4)
    move_cam_click_count [OF r(1)]
  show ?thesis by (simp add: despawn_def)
qed

section \<open>The schedule's one degree of freedom\<close>

text \<open>C30. Equivalence with a reference schedule: in every reachable world and every frame
  without Escape, a frame run in any admissible order gives the same result as the reference
  order that keeps only whether \<open>move_cam\<close> runs before \<open>enforce_render_distance\<close>
  (\<open>canonical_order\<close>). Together with C27 this shows the program has exactly two possible
  outcomes per such frame.\<close>

theorem frame_order_equivalence:
  assumes "reachable w" and "KeyEscape \<notin> set (keys_just_pressed inp)" and "schedule_ok order"
  shows "frame inp order w = frame inp (canonical_order (moves_before order)) w"
  by (rule frame_order_canonical [OF reachable_app_inv [OF assms(1)] assms(2,3)])

theorem frame_order_equivalence_witness:
  "reachable startup_world \<and>
   KeyEscape \<notin> set (keys_just_pressed \<lparr>keys_pressed = [KeyW], keys_just_pressed = [], mouse_motion = []\<rparr>) \<and>
   schedule_ok [ButtonSystem, EnforceRenderDistance, MoveCam] \<and>
   frame \<lparr>keys_pressed = [KeyW], keys_just_pressed = [], mouse_motion = []\<rparr>
     [ButtonSystem, EnforceRenderDistance, MoveCam] startup_world =
   frame \<lparr>keys_pressed = [KeyW], keys_just_pressed = [], mouse_motion = []\<rparr>
     [EnforceRenderDistance, MoveCam, ButtonSystem] startup_world"
proof -
  have h: "KeyEscape \<notin> set (keys_just_pressed \<lparr>keys_pressed = [KeyW], keys_just_pressed = [], mouse_motion = []\<rparr>)"
    "schedule_ok [ButtonSystem, EnforceRenderDistance, MoveCam]"
    by (simp_all add: schedule_ok_def insert_commute)
  from frame_order_equivalence [OF reachable_startup_world h] h reachable_startup_world show ?thesis
    by (simp add: canonical_order_def)
qed

text \<open>C32. The hypothesis \<open>no Escape\<close> of C30 is needed: in a frame where Escape is pressed
  and the Quit button has just been clicked, the two admissible orders that differ only in
  \<open>button_system\<close> versus \<open>move_cam\<close> queue the window commands in different orders: the
  close request before or after the three cursor commands.\<close>

theorem escape_click_order_matters:
  "schedule_ok [ButtonSystem, MoveCam, EnforceRenderDistance] \<and>
   schedule_ok [MoveCam, ButtonSystem, EnforceRenderDistance] \<and>
   (\<exists>w1 w2.
     frame \<lparr>keys_pressed = [], keys_just_pressed = [KeyEscape], mouse_motion = []\<rparr>
       [ButtonSystem, MoveCam, EnforceRenderDistance] (set_interaction 8 Clicked startup_world) = Inr w1 \<and>
     frame \<lparr>keys_pressed = [], keys_just_pressed = [KeyEscape], mouse_motion = []\<rparr>
       [MoveCam, ButtonSystem, EnforceRenderDistance] (set_interaction 8 Clicked startup_world) = Inr w2 \<and>
     map_option command_queue (primary_window w1) =
       Some [SetTitle ''RB GAME'', SetCursorLockMode True, SetCursorVisibility False,
             Close, SetCursorLockMode False, SetCursorVisibility True, SetCursorPosition (vec2_new 640 360)] \<and>
     map_option command_queue (primary_window w2) =
       Some [SetTitle ''RB GAME'', SetCursorLockMode True, SetCursorVisibility False,
             SetCursorLockMode False, SetCursorVisibility True, SetCursorPosition (vec2_new 640 360), Close])"
proof -
  let ?inp = "\<lparr>keys_pressed = [], keys_just_pressed = [KeyEscape], mouse_motion = []\<rparr>"
  let ?ws = "set_interaction 8 Clicked startup_world"
  have inv: "app_inv ?ws" by (rule set_interaction_facts [OF startup_app_inv])
  obtain w1 where w1: "frame ?inp [ButtonSystem, MoveCam, EnforceRenderDistance] ?ws = Inr w1"
    using frame_facts [OF inv] by blast
  obtain w2 where w2: "frame ?inp [MoveCam, ButtonSystem, EnforceRenderDistance] ?ws = Inr w2"
    using frame_facts [OF inv] by blast
  have win: "primary_window ?ws = Some (the (primary_window startup_world))"
    by (simp add: set_interaction_def startup_world_window)
  have n: "length (filter (\<lambda>b. interaction b = Some Clicked \<and> children b \<noteq> None)
      (filter button_query (entities ?ws))) = 1"
    by (simp add: set_interaction_def startup_entities_eval update_entity_def bundle_defs button_query_def)
  have esc: "KeyEscape \<in> set (keys_just_pressed ?inp)" by simp
  note q1 = frame_BM_window [OF w1 win esc] and q2 = frame_MB_window [OF w2 win esc]
  have "schedule_ok [ButtonSystem, MoveCam, EnforceRenderDistance]"
    "schedule_ok [MoveCam, ButtonSystem, EnforceRenderDistance]"
    by (simp_all add: schedule_ok_def insert_commute)
  with w1 w2 q1 q2 n show ?thesis
    by (simp add: startup_world_window toggle_grab_cursor_queue)
qed

end
