(* ===== verification/Labels.thy ===== *)
theory Labels
  imports Schedule
begin

text \<open>
  What the Quit button shows (\<open>main.rs\<close> lines 277--308 with the focus system). The spec
  promises that the button's label and colour follow its interaction state: ``Quitting'' and
  black while clicked, ``Quit'' and orange-red while hovered, ``Quit'' and gray otherwise.
  \<open>button_system\<close> only rewrites a button whose \<open>Interaction\<close> changed, so the promise rests
  on an invariant: a button whose change has been handled already shows its state. The
  theory proves that every reachable world satisfies this invariant and has exactly one
  button, and that after every frame every button shows its state.
\<close>

section \<open>Definitions\<close>

text \<open>The label a button displays: the first section of its first child's \<open>Text\<close>.\<close>

definition first_label :: "entity list \<Rightarrow> entity \<Rightarrow> string option" where
  "first_label es b =
     (case children b of
        Some (c0 # _) \<Rightarrow>
          (case find_entity c0 es of
             Some te \<Rightarrow> (case text_sections te of Some (s # _) \<Rightarrow> Some s | _ \<Rightarrow> None)
           | None \<Rightarrow> None)
      | _ \<Rightarrow> None)"

definition shows_state :: "entity list \<Rightarrow> entity \<Rightarrow> bool" where
  "shows_state es b \<longleftrightarrow>
     (case interaction b of
        Some act \<Rightarrow> first_label es b = Some (fst (button_look act)) \<and> ui_color b = Some (snd (button_look act))
      | None \<Rightarrow> True)"

definition labels_ok :: "world \<Rightarrow> bool" where
  "labels_ok w \<longleftrightarrow>
     (\<forall>b \<in> set (entities w). button b \<and> \<not> interaction_changed b \<longrightarrow> shows_state (entities w) b)"

definition labels_shown :: "world \<Rightarrow> bool" where
  "labels_shown w \<longleftrightarrow>
     (\<forall>b \<in> set (entities w). button b \<longrightarrow> shows_state (entities w) b \<and> \<not> interaction_changed b)"

definition one_button :: "world \<Rightarrow> bool" where
  "one_button w \<longleftrightarrow> length (filter button (entities w)) = 1"

text \<open>The fields the invariant reads.\<close>

definition label_view :: "entity \<Rightarrow> nat \<times> string list option \<times> nat list option \<times> interaction option \<times> color option \<times> bool \<times> bool" where
  "label_view e = (eid e, text_sections e, children e, interaction e, ui_color e, button e, interaction_changed e)"

section \<open>The displayed label depends on ids and texts only\<close>

lemma find_entity_proj:
  "map (\<lambda>e. (eid e, text_sections e)) es' = map (\<lambda>e. (eid e, text_sections e)) es \<Longrightarrow>
   map_option (\<lambda>e. (eid e, text_sections e)) (find_entity i es') =
   map_option (\<lambda>e. (eid e, text_sections e)) (find_entity i es)"
proof (induction es arbitrary: es')
  case Nil
  then show ?case by (simp add: find_entity_def)
next
  case (Cons e es)
  then obtain e' es'' where e': "es' = e' # es''" "eid e' = eid e" "text_sections e' = text_sections e"
      "map (\<lambda>e. (eid e, text_sections e)) es'' = map (\<lambda>e. (eid e, text_sections e)) es"
    by (cases es') auto
  with Cons.IH [OF e'(4)] show ?case by (simp add: find_entity_def)
qed

lemma first_label_cong:
  assumes "map (\<lambda>e. (eid e, text_sections e)) es' = map (\<lambda>e. (eid e, text_sections e)) es"
    and "children b' = children b"
  shows "first_label es' b' = first_label es b"
proof -
  have p: "map_option (\<lambda>e. (eid e, text_sections e)) (find_entity i es') =
      map_option (\<lambda>e. (eid e, text_sections e)) (find_entity i es)" for i
    by (rule find_entity_proj [OF assms(1)])
  have s: "map_option text_sections x = map_option snd (map_option (\<lambda>e. (eid e, text_sections e)) x)" for x
    by (cases x) simp_all
  have t: "map_option text_sections (find_entity i es') = map_option text_sections (find_entity i es)" for i
    by (simp only: s p)
  show ?thesis
  proof (cases "children b")
    case None
    with assms(2) show ?thesis by (simp add: first_label_def)
  next
    case (Some chs)
    show ?thesis
    proof (cases chs)
      case Nil
      with Some assms(2) show ?thesis by (simp add: first_label_def)
    next
      case (Cons c0 cs)
      from t [of c0] Some Cons assms(2) show ?thesis
        by (cases "find_entity c0 es"; cases "find_entity c0 es'") (simp_all add: first_label_def)
    qed
  qed
qed

lemma find_entity_map:
  "(\<And>e. eid (f e) = eid e) \<Longrightarrow> find_entity i (map f es) = map_option f (find_entity i es)"
  by (induction es) (auto simp: find_entity_def)

lemma map_factor:
  assumes "map g xs = map g ys" and "\<And>e. h e = k (g e)"
  shows "map h xs = map h ys"
proof -
  have "map h zs = map k (map g zs)" for zs by (simp add: assms(2))
  with assms(1) show ?thesis by metis
qed

lemma labels_view:
  assumes "map label_view (entities w') = map label_view (entities w)"
  shows "labels_ok w \<Longrightarrow> labels_ok w'" and "labels_shown w \<Longrightarrow> labels_shown w'"
    and "one_button w' = one_button w"
proof -
  have et: "map (\<lambda>e. (eid e, text_sections e)) (entities w') = map (\<lambda>e. (eid e, text_sections e)) (entities w)"
    by (rule map_factor [OF assms, where k = "\<lambda>(i, t, _). (i, t)"]) (simp add: label_view_def)
  have corr: "\<exists>b \<in> set (entities w). label_view b = label_view b'" if "b' \<in> set (entities w')" for b'
    using map_eq_set [OF assms that] by blast
  have ss: "shows_state (entities w') b' = shows_state (entities w) b" if "label_view b = label_view b'" for b b'
    using that first_label_cong [OF et, of b' b] by (simp add: shows_state_def label_view_def split: option.split)
  show "labels_ok w \<Longrightarrow> labels_ok w'"
    unfolding labels_ok_def
  proof (intro ballI impI)
    fix b' assume ok: "\<forall>b \<in> set (entities w). button b \<and> \<not> interaction_changed b \<longrightarrow> shows_state (entities w) b"
      and b': "b' \<in> set (entities w')" "button b' \<and> \<not> interaction_changed b'"
    from corr [OF b'(1)] obtain b where b: "b \<in> set (entities w)" "label_view b = label_view b'" by blast
    from b(2) b'(2) have "button b \<and> \<not> interaction_changed b" by (simp add: label_view_def)
    with ok b(1) have "shows_state (entities w) b" by blast
    with ss [OF b(2)] show "shows_state (entities w') b'" by simp
  qed
  show "labels_shown w \<Longrightarrow> labels_shown w'"
    unfolding labels_shown_def
  proof (intro ballI impI)
    fix b' assume ok: "\<forall>b \<in> set (entities w). button b \<longrightarrow> shows_state (entities w) b \<and> \<not> interaction_changed b"
      and b': "b' \<in> set (entities w')" "button b'"
    from corr [OF b'(1)] obtain b where b: "b \<in> set (entities w)" "label_view b = label_view b'" by blast
    from b(2) b'(2) have "button b" "interaction_changed b = interaction_changed b'"
      by (simp_all add: label_view_def)
    with ok b(1) have "shows_state (entities w) b \<and> \<not> interaction_changed b'" by auto
    with ss [OF b(2)] show "shows_state (entities w') b' \<and> \<not> interaction_changed b'" by simp
  qed
  have "map button (entities w') = map button (entities w)"
    by (rule map_factor [OF assms, where k = "\<lambda>(_, _, _, _, _, bt, _). bt"]) (simp add: label_view_def)
  from length_filter_map_eq [OF this, of id] show "one_button w' = one_button w"
    by (simp add: one_button_def)
qed

lemma move_cam_labels:
  assumes "move_cam inp w = Inr w'"
  shows "map label_view (entities w') = map label_view (entities w)"
proof -
  from move_cam_strip [OF assms] have "map strip_cam (entities w') = map strip_cam (entities w)" by blast
  then show ?thesis by (rule map_strip_eq) (simp add: strip_cam_def label_view_def)
qed

lemma one_button_filter:
  assumes "one_button w"
  obtains bt where "filter button (entities w) = [bt]"
  using assms by (auto simp: one_button_def length_Suc_conv)

lemma clear_shows_state:
  "shows_state (map (\<lambda>e. e\<lparr>interaction_changed := False\<rparr>) es) (b\<lparr>interaction_changed := False\<rparr>) =
   shows_state es b"
proof -
  have "first_label (map (\<lambda>e. e\<lparr>interaction_changed := False\<rparr>) es) (b\<lparr>interaction_changed := False\<rparr>) =
      first_label es b"
    by (rule first_label_cong) (simp_all add: comp_def)
  then show ?thesis by (simp add: shows_state_def split: option.split)
qed

lemma button_system_labels:
  assumes inv: "app_inv w" and ob: "one_button w" and lo: "labels_ok w"
    and bs: "button_system w = Inr w'"
  shows "labels_shown w'"
proof -
  let ?es = "entities w"
  let ?clr = "\<lambda>e. e\<lparr>interaction_changed := False\<rparr>"
  obtain bt where f: "filter button ?es = [bt]" by (rule one_button_filter [OF ob])
  then have bt: "bt \<in> set ?es" "button bt" by (metis filter_eq_ConsD in_set_conv_decomp)+
  have only: "e = bt" if "e \<in> set ?es" "button e" for e
  proof -
    from that have "e \<in> set (filter button ?es)" by simp
    with f show ?thesis by simp
  qed
  have comp: "ui_color bt \<noteq> None" "children bt \<noteq> None" "interaction bt \<noteq> None"
    using inv bt by (auto simp: app_inv_def entity_inv_def buttons_complete_def)
  have "filter button_query ?es = filter button_query (filter button ?es)"
    by (simp add: filter_filter) (rule filter_cong, auto simp: button_query_def)
  then have fq: "filter button_query ?es = (if button_query bt then [bt] else [])" by (simp add: f)
  show ?thesis
  proof (cases "button_query bt")
    case False
    then have nc: "\<not> interaction_changed bt" using comp bt(2) by (simp add: button_query_def)
    have w': "w' = clear_interaction_changed w" using bs fq False by (simp add: button_system_def)
    have sb: "shows_state ?es bt" using lo bt nc by (auto simp: labels_ok_def)
    show ?thesis unfolding labels_shown_def
    proof (intro ballI impI)
      fix b' assume "b' \<in> set (entities w')" "button b'"
      then obtain e where "e \<in> set ?es" "b' = ?clr e" "button e"
        by (auto simp: w' clear_interaction_changed_def)
      with only have "b' = ?clr bt" by blast
      with sb show "shows_state (entities w') b' \<and> \<not> interaction_changed b'"
        by (simp add: w' clear_interaction_changed_def clear_shows_state)
    qed
  next
    case True
    then obtain act chs where ac: "interaction bt = Some act" "children bt = Some chs"
      by (auto simp: button_query_def)
    have "first_child_text ?es chs"
      using inv bt ac by (auto simp: app_inv_def entity_inv_def buttons_wf_def)
    then have "\<exists>c0 cs te. chs = c0 # cs \<and> find_entity c0 ?es = Some te \<and> text_ok te"
      by (auto simp: first_child_text_ok split: list.splits option.splits)
    then obtain c0 cs te where c: "chs = c0 # cs" "find_entity c0 ?es = Some te" "text_ok te" by blast
    then obtain secs where secs: "text_sections te = Some secs" "secs \<noteq> []"
      by (auto simp: text_ok_def split: option.splits)
    let ?ft = "\<lambda>e. e\<lparr>text_sections := Some (secs[0 := fst (button_look act)])\<rparr>"
    let ?fc = "\<lambda>e. e\<lparr>ui_color := Some (snd (button_look act))\<rparr>"
    let ?F = "\<lambda>e. ?clr (if eid e = eid bt then ?fc (if eid e = c0 then ?ft e else e) else (if eid e = c0 then ?ft e else e))"
    have step: "button_step act (eid bt) chs w =
        Inr (w\<lparr>entities := update_entity (eid bt) ?fc (update_entity c0 ?ft ?es),
           primary_window := (if act = Clicked then map_option window_close (primary_window w) else primary_window w)\<rparr>)"
      using button_step_ok [OF c(2) secs] c(1) by simp
    have w': "entities w' = map ?F ?es"
    proof -
      have "entities w' = map ?clr (update_entity (eid bt) ?fc (update_entity c0 ?ft ?es))"
        using bs fq True ac step by (clarsimp simp: button_system_def clear_interaction_changed_def)
      then show ?thesis by (simp add: update_entity_def if_distrib [of eid])
    qed
    have teF: "find_entity c0 (entities w') = Some (?F te)"
      unfolding w' by (simp add: find_entity_map c(2))
    have "eid te = c0" using find_entity_SomeD [OF c(2)] by simp
    define b0 where "b0 = ?F bt"
    have b0: "interaction b0 = Some act" "children b0 = Some chs"
      "ui_color b0 = Some (snd (button_look act))" "\<not> interaction_changed b0"
      using ac by (simp_all add: b0_def)
    have lab: "first_label (entities w') b0 = Some (fst (button_look act))"
      using teF b0(2) c(1) secs \<open>eid te = c0\<close> by (auto simp: first_label_def neq_Nil_conv)
    have sb0: "shows_state (entities w') b0" using lab b0 by (simp add: shows_state_def)
    show ?thesis unfolding labels_shown_def
    proof (intro ballI impI)
      fix b' assume "b' \<in> set (entities w')" "button b'"
      then obtain e where "e \<in> set ?es" "b' = ?F e" "button e" by (auto simp: w' split: if_splits)
      with only have b'F: "b' = b0" unfolding b0_def by blast
      with sb0 b0(4) show "shows_state (entities w') b' \<and> \<not> interaction_changed b'" by simp
    qed
  qed
qed

lemma labels_shown_ok: "labels_shown w \<Longrightarrow> labels_ok w"
  by (simp add: labels_shown_def labels_ok_def)

lemma one_button_shape:
  assumes "list_all2 same_shape (entities w) (entities w')"
  shows "one_button w' = one_button w"
proof -
  have "map button (entities w') = map button (entities w)"
    using assms by (induction rule: list_all2_induct) (simp_all add: same_shape_def)
  from length_filter_map_eq [OF this, of id] show ?thesis by (simp add: one_button_def)
qed

text \<open>A label is read from a text child, which is a UI node; dropping entities that are not
  nodes leaves it.\<close>

lemma first_label_filter:
  assumes "texts_are_nodes es" and "\<And>e. e \<in> set es \<Longrightarrow> node e \<Longrightarrow> P e"
    and "first_label es b = Some s"
  shows "first_label (filter P es) b = Some s"
proof -
  from assms(3) obtain c0 cs te rest where c: "children b = Some (c0 # cs)"
    "find_entity c0 es = Some te" "text_sections te = Some (s # rest)"
    by (auto simp: first_label_def split: option.splits list.splits)
  have "te \<in> set es" using find_entity_SomeD [OF c(2)] by simp
  with assms(1) c(3) have "node te" by (auto simp: texts_are_nodes_def)
  with assms(2) \<open>te \<in> set es\<close> have "P te" by blast
  with c show ?thesis by (simp add: first_label_def find_entity_filter)
qed

lemma despawn_labels:
  assumes inv: "app_inv w" and pend: "pending_ok w ids" and sh: "labels_shown w"
  shows "labels_shown (despawn ids w) \<and> one_button (despawn ids w) = one_button w"
proof -
  let ?Q = "\<lambda>e. eid e \<notin> set ids"
  have tn: "texts_are_nodes (entities w)" and bc: "buttons_complete (entities w)"
    using inv by (simp_all add: app_inv_def entity_inv_def)
  have keep: "?Q e" if "e \<in> set (entities w)" "node e" for e
    using pend that by (auto simp: pending_ok_def cull_query_def)
  have bnode: "node b" if "b \<in> set (entities w)" "button b" for b
    using bc that by (simp add: buttons_complete_def)
  have sh': "shows_state (filter ?Q (entities w)) b \<and> \<not> interaction_changed b"
    if "b \<in> set (entities w)" "button b" for b
  proof -
    from sh that have s: "shows_state (entities w) b" "\<not> interaction_changed b"
      by (simp_all add: labels_shown_def)
    show ?thesis
    proof (cases "interaction b")
      case None
      with s show ?thesis by (simp add: shows_state_def)
    next
      case (Some act)
      with s have "first_label (entities w) b = Some (fst (button_look act))"
        by (simp add: shows_state_def)
      from first_label_filter [OF tn keep this] s Some show ?thesis
        by (simp add: shows_state_def)
    qed
  qed
  have "filter button (filter ?Q (entities w)) = filter button (entities w)"
    unfolding filter_filter by (rule filter_cong) (auto dest: bnode keep)
  then have "one_button (despawn ids w) = one_button w"
    by (simp add: one_button_def despawn_def)
  moreover have "labels_shown (despawn ids w)"
    using sh' by (simp add: labels_shown_def despawn_def)
  ultimately show ?thesis by simp
qed

lemma run_system_labels:
  assumes inv: "app_inv w" and ob: "one_button w" and lo: "labels_ok w"
    and run: "run_system inp sy (w, d) = Inr (w1, d1)"
  shows "one_button w1 \<and> labels_ok w1 \<and> (sy = ButtonSystem \<or> labels_shown w \<longrightarrow> labels_shown w1)"
proof (cases sy)
  case ButtonSystem
  from button_system_facts [OF inv] obtain w' where
    bs: "button_system w = Inr w'" "list_all2 same_shape (entities w) (entities w')" by blast
  with run ButtonSystem have "w1 = w'" by simp
  with button_system_labels [OF inv ob lo bs(1)] one_button_shape [OF bs(2)] ob ButtonSystem
  show ?thesis by (simp add: labels_shown_ok)
next
  case MoveCam
  from run MoveCam obtain w' where mc: "move_cam inp w = Inr w'" "w1 = w'"
    by (simp split: sum.splits)
  from labels_view [OF move_cam_labels [OF mc(1)]] lo ob mc(2) MoveCam show ?thesis by simp
next
  case EnforceRenderDistance
  with run have "w1 = w" by (simp split: sum.splits)
  with ob lo EnforceRenderDistance show ?thesis by simp
qed

lemma run_systems_labels:
  "app_inv w \<Longrightarrow> pending_ok w d \<Longrightarrow> one_button w \<Longrightarrow> labels_ok w \<Longrightarrow>
   (ButtonSystem \<notin> set sys \<longrightarrow> labels_shown w) \<Longrightarrow>
   run_systems inp sys (w, d) = Inr (w', d') \<Longrightarrow>
   one_button w' \<and> labels_shown w' \<and> app_inv w' \<and> pending_ok w' d'"
proof (induction sys arbitrary: w d)
  case Nil
  then show ?case by simp
next
  case (Cons sy sys)
  from run_system_facts [OF Cons.prems(1,2)] obtain w1 d1 where
    r: "run_system inp sy (w, d) = Inr (w1, d1)" "app_inv w1" "pending_ok w1 d1" by blast
  from run_system_labels [OF Cons.prems(1,3,4) r(1)]
  have l: "one_button w1" "labels_ok w1" "sy = ButtonSystem \<or> labels_shown w \<Longrightarrow> labels_shown w1"
    by simp_all
  have "ButtonSystem \<notin> set sys \<longrightarrow> labels_shown w1"
    using Cons.prems(5) l(3) by auto
  moreover have "run_systems inp sys (w1, d1) = Inr (w', d')" using Cons.prems(6) r(1) by simp
  ultimately show ?case using Cons.IH [OF r(2,3) l(1,2)] by blast
qed

lemma frame_labels:
  assumes "app_inv w" and "one_button w" and "labels_ok w" and "ButtonSystem \<in> set order"
    and "frame inp order w = Inr w'"
  shows "one_button w' \<and> labels_shown w'"
proof -
  from assms(5) obtain w1 ids where r: "run_systems inp order (w, []) = Inr (w1, ids)" "w' = despawn ids w1"
    by (auto simp: frame_def split: sum.splits)
  have "pending_ok w []" by (simp add: pending_ok_def)
  from run_systems_labels [OF assms(1) this assms(2,3) _ r(1)] assms(4)
  have "one_button w1" "labels_shown w1" "app_inv w1" "pending_ok w1 ids" by simp_all
  with despawn_labels r(2) show ?thesis by simp
qed

lemma set_interaction_labels:
  assumes ob: "one_button w" and lo: "labels_ok w"
  shows "one_button (set_interaction bid act w) \<and> labels_ok (set_interaction bid act w)"
proof -
  define g :: "entity \<Rightarrow> entity" where "g = (\<lambda>e. if eid e = bid then
      (if button e \<and> interaction e \<noteq> Some act
       then e\<lparr>interaction := Some act, interaction_changed := True\<rparr> else e) else e)"
  have es: "entities (set_interaction bid act w) = map g (entities w)"
    by (simp add: set_interaction_def update_entity_def g_def)
  have gp: "eid (g e) = eid e" "text_sections (g e) = text_sections e" "button (g e) = button e" for e
    by (simp_all add: g_def)
  have gc: "g e = e" if "\<not> interaction_changed (g e)" for e
    using that by (cases "eid e = bid"; cases "button e \<and> interaction e \<noteq> Some act") (simp_all add: g_def)
  have et: "map (\<lambda>e. (eid e, text_sections e)) (map g (entities w)) =
      map (\<lambda>e. (eid e, text_sections e)) (entities w)" by (simp add: gp)
  have "map button (map g (entities w)) = map button (entities w)" by (simp add: gp)
  from length_filter_map_eq [OF this, of id] ob have "one_button (set_interaction bid act w)"
    by (simp add: one_button_def es)
  moreover have "labels_ok (set_interaction bid act w)"
    unfolding labels_ok_def es
  proof (intro ballI impI)
    fix b' assume b': "b' \<in> set (map g (entities w))" "button b' \<and> \<not> interaction_changed b'"
    then obtain e where e: "e \<in> set (entities w)" "b' = g e" by auto
    with b'(2) gc have "b' = e" by metis
    with lo e(1) b'(2) have "shows_state (entities w) e" by (simp add: labels_ok_def)
    with \<open>b' = e\<close> first_label_cong [OF et, of e e] show "shows_state (map g (entities w)) b'"
      by (simp add: shows_state_def split: option.splits)
  qed
  ultimately show ?thesis by simp
qed

lemma startup_labels: "one_button startup_world \<and> labels_ok startup_world"
  by (simp add: one_button_def labels_ok_def shows_state_def first_label_def startup_entities_eval
      bundle_defs find_entity_def)

lemma reachable_labels: "reachable w \<Longrightarrow> one_button w \<and> labels_ok w"
proof (induction rule: reachable.induct)
  case startup
  then show ?case using startup_labels by (simp add: startup_world_def)
next
  case startup_swapped
  then show ?case using startup_labels
    by (simp add: one_button_def labels_ok_def startup_swapped_entities)
next
  case (step w w')
  from step.hyps(2) show ?case
  proof (cases rule: app_step.cases)
    case (run_frame order inp)
    then have "ButtonSystem \<in> set order" by (simp add: schedule_ok_def)
    with frame_labels [OF reachable_app_inv [OF step.hyps(1)]] step.IH run_frame
    show ?thesis by (simp add: labels_shown_ok)
  next
    case (focus bid act)
    with set_interaction_labels step.IH show ?thesis by simp
  qed
qed

section \<open>The button shows its state after every frame\<close>

text \<open>C33. After a frame run in an admissible order from any reachable world, the world has
  exactly one button, and that button shows its interaction state (label ``Quitting'' and
  black when clicked, ``Quit'' and orange-red when hovered, ``Quit'' and gray otherwise)
  with no unhandled change: the display never lags the focus by more than one frame.\<close>

theorem reachable_frame_labels:
  assumes "reachable w" and "schedule_ok order" and "frame inp order w = Inr w'"
  shows "one_button w' \<and> labels_shown w'"
proof -
  from reachable_labels [OF assms(1)] have "one_button w" "labels_ok w" by simp_all
  moreover from assms(2) have "ButtonSystem \<in> set order" by (simp add: schedule_ok_def)
  ultimately show ?thesis using frame_labels [OF reachable_app_inv [OF assms(1)]] assms(3) by blast
qed

theorem reachable_frame_labels_witness:
  "reachable (set_interaction 8 Hovered startup_world) \<and>
   schedule_ok [ButtonSystem, MoveCam, EnforceRenderDistance] \<and>
   (\<exists>w'. frame \<lparr>keys_pressed = [KeyW], keys_just_pressed = [], mouse_motion = []\<rparr>
      [ButtonSystem, MoveCam, EnforceRenderDistance] (set_interaction 8 Hovered startup_world) = Inr w' \<and>
    one_button w' \<and> labels_shown w')"
proof -
  have r: "reachable (set_interaction 8 Hovered startup_world)"
    by (rule reachable.step [OF reachable_startup_world app_step.focus])
  have s: "schedule_ok [ButtonSystem, MoveCam, EnforceRenderDistance]" by (simp add: schedule_ok_def)
  obtain w' where f: "frame \<lparr>keys_pressed = [KeyW], keys_just_pressed = [], mouse_motion = []\<rparr>
      [ButtonSystem, MoveCam, EnforceRenderDistance] (set_interaction 8 Hovered startup_world) = Inr w'"
    using frame_facts [OF reachable_app_inv [OF r]] by blast
  from reachable_frame_labels [OF r s f] r s f show ?thesis by blast
qed

end
