(* ===== verification/Motion.thy ===== *)
theory Motion
  imports Camera
begin

text \<open>
  How far the camera moves in one frame (\<open>main.rs\<close> lines 184--220). The directions
  \<open>forward\<close>, \<open>right\<close> and \<open>up\<close> of a unit rotation are orthonormal, so the six movement
  keys move the camera by \<open>SPEED\<close> times the square root of the number of axes on which
  exactly one of the two opposite keys is held: at most \<open>SPEED * sqrt 3\<close> per frame,
  whatever the orientation and the combination of keys.
\<close>

section \<open>Orthonormal directions\<close>

lemma quat_mul_vec3_dot2:
  "vec3_dot (quat_mul_vec3 q a) (quat_mul_vec3 q b) =
     quat_length_squared q * quat_length_squared q * vec3_dot a b"
  unfolding quat_mul_vec3_def Let_def quat_length_squared_def by (simp add: vec_simps) algebra

lemma vec3_dot_neg [simp]:
  "vec3_dot (vec3_neg a) b = - vec3_dot a b" "vec3_dot a (vec3_neg b) = - vec3_dot a b"
  by (simp_all add: vec_simps)

lemma transform_dirs_dots:
  assumes "quat_length_squared (rotation t) = 1"
  shows "vec3_dot (transform_forward t) (transform_right t) = 0"
    and "vec3_dot (transform_forward t) (transform_up t) = 0"
    and "vec3_dot (transform_right t) (transform_up t) = 0"
    and "vec3_dot (transform_forward t) (transform_forward t) = 1"
    and "vec3_dot (transform_right t) (transform_right t) = 1"
    and "vec3_dot (transform_up t) (transform_up t) = 1"
  using assms
  by (simp_all add: transform_forward_def transform_right_def transform_up_def quat_mul_vec3_dot2)
     (simp_all add: vec_simps)

lemma held_axis_sq: "held_axis ks kp kn * held_axis ks kp kn = \<bar>held_axis ks kp kn\<bar>"
  by (simp add: held_axis_def)

lemma vec3_dot_comb:
  "vec3_dot (vec3_add (vec3_add (vec3_mul f a) (vec3_mul r b)) (vec3_mul u c))
            (vec3_add (vec3_add (vec3_mul f a) (vec3_mul r b)) (vec3_mul u c)) =
   a * a * vec3_dot f f + b * b * vec3_dot r r + c * c * vec3_dot u u +
   2 * a * b * vec3_dot f r + 2 * a * c * vec3_dot f u + 2 * b * c * vec3_dot r u"
  by (simp add: vec_simps algebra_simps)

section \<open>The distance of one frame\<close>

text \<open>C31. With a unit rotation, one frame of the movement keys moves the camera by exactly
  \<open>SPEED * sqrt n\<close>, where \<open>n\<close> counts the axes (W/S, D/A, Space/LShift) on which exactly
  one of the two keys is held; so never more than \<open>SPEED * sqrt 3\<close>.\<close>

theorem move_keys_frame_distance:
  assumes "quat_length_squared (rotation t) = 1"
  shows "vec3_length (vec3_sub (translation (move_keys ks t)) (translation t)) =
      SPEED * sqrt (\<bar>held_axis ks KeyW KeyS\<bar> + \<bar>held_axis ks KeyD KeyA\<bar> + \<bar>held_axis ks KeySpace KeyLShift\<bar>) \<and>
    vec3_length (vec3_sub (translation (move_keys ks t)) (translation t)) \<le> SPEED * sqrt 3"
proof -
  let ?a = "held_axis ks KeyW KeyS" and ?b = "held_axis ks KeyD KeyA" and ?c = "held_axis ks KeySpace KeyLShift"
  note u = transform_dirs_unit [OF assms] and d = transform_dirs_dots [OF assms]
  let ?D = "vec3_add (vec3_add (vec3_mul (transform_forward t) (SPEED * ?a))
      (vec3_mul (transform_right t) (SPEED * ?b))) (vec3_mul (transform_up t) (SPEED * ?c))"
  have tr: "translation (move_keys ks t) = vec3_add (translation t) ?D"
    using u by (simp add: move_keys_translation_eq vec3_normalize_unit)
  have "vec3_dot ?D ?D = (SPEED * SPEED) * (?a * ?a + ?b * ?b + ?c * ?c)"
    by (simp only: vec3_dot_comb d) (simp add: algebra_simps)
  also have "\<dots> = (SPEED * SPEED) * (\<bar>?a\<bar> + \<bar>?b\<bar> + \<bar>?c\<bar>)" by (simp only: held_axis_sq)
  finally have dd: "vec3_dot ?D ?D = (SPEED * SPEED) * (\<bar>?a\<bar> + \<bar>?b\<bar> + \<bar>?c\<bar>)" .
  have sp: "0 < SPEED" by (simp add: SPEED_def)
  have len: "vec3_length (vec3_sub (translation (move_keys ks t)) (translation t)) =
      SPEED * sqrt (\<bar>?a\<bar> + \<bar>?b\<bar> + \<bar>?c\<bar>)"
  proof -
    have "vec3_length (vec3_sub (translation (move_keys ks t)) (translation t)) = vec3_length ?D"
      by (simp only: tr vec3_length_sub_add)
    also have "\<dots> = sqrt ((SPEED * SPEED) * (\<bar>?a\<bar> + \<bar>?b\<bar> + \<bar>?c\<bar>))"
      by (simp only: vec3_length_def dd)
    also have "\<dots> = SPEED * sqrt (\<bar>?a\<bar> + \<bar>?b\<bar> + \<bar>?c\<bar>)"
      using sp by (simp add: real_sqrt_mult)
    finally show ?thesis .
  qed
  have "\<bar>?a\<bar> + \<bar>?b\<bar> + \<bar>?c\<bar> \<le> 3" by (simp add: held_axis_def)
  then have "sqrt (\<bar>?a\<bar> + \<bar>?b\<bar> + \<bar>?c\<bar>) \<le> sqrt 3" by (rule real_sqrt_le_mono)
  with sp len show ?thesis by simp
qed

theorem move_keys_frame_distance_witness:
  "quat_length_squared (rotation Transform_default) = 1 \<and>
   vec3_length (vec3_sub (translation (move_keys [KeyW, KeyD, KeySpace, KeyA] Transform_default))
     (translation Transform_default)) = SPEED * sqrt 2"
proof -
  have u: "quat_length_squared (rotation Transform_default) = 1"
    by (simp add: Transform_default_def vec_simps)
  from move_keys_frame_distance [OF u, of "[KeyW, KeyD, KeySpace, KeyA]"] u show ?thesis
    by (simp add: held_axis_def)
qed

end
