(* ===== verification/Spec2Isabelle.thy ===== *)
theory Spec2Isabelle
  imports Labels Motion
begin

text \<open>
  \<^bold>\<open>A verification development for bevy-test.\<close>
  The program (\<open>src/src/main.rs\<close>) is a bevy 0.8 demo: a lit scene with a first-person
  camera, a pause overlay with a Quit button, and distance culling. \<open>main\<close> runs two
  startup systems (\<open>setup\<close>, \<open>initial_grab_cursor\<close>) and then, every frame, three update
  systems (\<open>button_system\<close>, \<open>move_cam\<close>, \<open>enforce_render_distance\<close>) over a shared
  world: entities with components, the primary window and the \<open>InputState\<close> resource.
  The development is a shallow embedding: the world is a record (\<open>World.world\<close>), every
  system a function from the world (and the frame's input) to \<open>panic + world\<close>, so that
  every \<open>single_mut\<close>, \<open>unwrap\<close> and index panic of the source is an \<open>Inl\<close> value.

  \<^bold>\<open>Theories and what they model.\<close>
  \<^item> \<open>Prelude\<close>: \<open>f32\<close> as exact reals, \<open>f32::to_radians\<close>, \<open>f32::clamp\<close> (its body,
    assertion included), \<open>f32::min\<close>; the named collections \<open>vec_simps\<close> and
    \<open>world_simps\<close>.
  \<^item> \<open>Glam\<close>: \<open>Vec2\<close>, \<open>Vec3\<close>, \<open>Quat\<close>, \<open>Transform\<close> and the library operations the program
    calls (product, \<open>from_axis_angle\<close>, rotation of a vector, \<open>normalize\<close>,
    \<open>looking_at\<close>, \<open>forward/right/up\<close>), from the library's formulas; lemmas that unit
    quaternions preserve lengths.
  \<^item> \<open>World\<close>: key codes, \<open>Interaction\<close>, colours, meshes, the window with its command
    queue (\<open>set_title\<close>, \<open>set_cursor_lock_mode\<close>, \<open>set_cursor_visibility\<close>,
    \<open>set_cursor_position\<close>, \<open>close\<close>), entities, \<open>InputState\<close> (lines 9--14),
    \<open>Query::single\<close> and the write-back of a query (\<open>update_entity\<close>).
  \<^item> \<open>Cursor\<close>: \<open>toggle_grab_cursor\<close>, \<open>initial_grab_cursor\<close>, \<open>toggle_pause_menu\<close>
    (lines 247--275).
  \<^item> \<open>Scene\<close>: \<open>setup\<close> (lines 31--164) as \<open>setup_system\<close>: the ten entities it spawns
    with ids \<open>n..n+9\<close>, their components and parent/child links, and the window title.
  \<^item> \<open>Camera\<close>: \<open>move_cam\<close> (lines 166--245): window early return, the camera query, the
    six movement keys (\<open>key_move\<close>, \<open>move_keys\<close>), the Escape toggle, the mouse-event loop
    (\<open>mouse_delta\<close>, \<open>mouse_look\<close>) with the pitch clamp and the rotation
    \<open>look_rotation\<close>. Claims C1--C13.
  \<^item> \<open>Button\<close>: \<open>button_system\<close> (lines 277--308): the changed-button query, one loop
    iteration \<open>button_step\<close> with its three panics, the label/colour table, the close
    request; the engine's focus system as the environment step \<open>set_interaction\<close>.
    Claims C14--C16.
  \<^item> \<open>Culling\<close>: \<open>enforce_render_distance\<close> (lines 310--324): the camera query, the
    exemption filter, the sum-of-positions measure and the deferred despawns. Claims
    C17--C20, among them C20: the measure agrees with the distance the spec
    intends only for a camera at the origin.
  \<^item> \<open>App\<close>: \<open>main\<close> (lines 16--28): a frame (\<open>frame\<close>) runs the three systems once each
    in an order the engine picks (\<open>schedule_ok\<close>: any permutation, since \<open>main\<close> adds them
    without ordering), stops at the first panic, and applies the queued despawns at the end;
    \<open>app_step\<close> is the step relation of frames and focus changes, stopped by a close
    request, and \<open>reachable\<close> its closure from both orders of the startup systems.
    \<open>app_inv\<close> is the invariant (distinct ids, one camera, buttons with a text child, text
    entities are UI nodes, pitch in range, the window present, cursor visible iff unlocked,
    overlay roots visible iff the cursor is), proved preserved by every system
    (\<open>button_system_facts\<close>, \<open>move_cam_facts\<close>, \<open>enforce_facts\<close>, \<open>despawn_facts\<close>,
    \<open>frame_facts\<close>) and by focus changes. \<open>pause_abs\<close> and \<open>pause_spec\<close> are the abstract
    two-state pause machine.
  \<^item> \<open>Quit\<close>: the run loop of \<open>App::run\<close> (line 27) as \<open>app_run\<close>, a
    \<^theory_text>\<open>partial_function (option)\<close>: each iteration applies at most one focus change
    (\<open>focus_step\<close>) and one frame in the executor's order of that iteration, and the loop
    ends on a queued close request or a panic; \<open>None\<close> is a run that never ends. The
    lemmas track what each system does to interactions, change flags and the close request
    (\<open>strip_ui\<close>, \<open>strip_cam\<close> erase what a system may write). Claims C28 (a click on a
    button ends the run, without panic) and C29 (without a click the run never ends).
  \<^item> \<open>Schedule\<close>: without Escape, \<open>button_system\<close> commutes with \<open>move_cam\<close> and culling
    ignores what \<open>button_system\<close> writes, so a frame depends on the order only through
    \<open>moves_before\<close>; claim C30 against the reference \<open>canonical_order\<close>. With Escape the
    order is observable: claim C32 shows the two orders of \<open>button_system\<close> and
    \<open>move_cam\<close> queue \<open>Close\<close> before or after the cursor commands.
  \<^item> \<open>Motion\<close>: the movement block of \<open>move_cam\<close> (lines 184--220) over a unit rotation:
    forward, right and up are orthonormal, so a frame moves the camera by exactly
    \<open>SPEED * sqrt n\<close>, \<open>n\<close> the number of axes with one key of the pair held (claim C31).
  \<^item> \<open>Labels\<close>: what the Quit button displays. \<open>button_system\<close> rewrites only buttons
    whose \<open>Interaction\<close> changed, so its promise rests on the invariant \<open>labels_ok\<close>
    (a button without a pending change shows its state: \<open>first_label\<close>, the first section
    of its first child's text, and \<open>UiColor\<close> as in \<open>button_look\<close>) together with
    \<open>one_button\<close>; both hold in every reachable world (\<open>reachable_labels\<close>), and after
    every frame the button shows its state with no pending change (claim C33).
  \<^item> This theory: the claims over whole runs, C21--C27: no panic, overlay/cursor lockstep,
    pitch bound and one camera in every reachable world; the refinement of the pause machine
    by whole frames; the Escape round trip; and a witness that the frame's result depends on
    the order of the unordered systems.

  \<^bold>\<open>Choices.\<close>
  \<open>f32\<close> is modelled by exact reals: rounding, NaN and infinities are not modelled, so
  the arithmetic claims hold of the exact computation the code approximates. Loops of the
  source (the mouse events, the changed buttons) run over finite lists and are structural
  recursion; no fuel is needed. The engine's run loop may run forever, so it is a
  \<^theory_text>\<open>partial_function (option)\<close> rather than fuel, and its termination is proved
  as such (C28: it returns \<open>Some\<close>; C29: it is \<open>None\<close>) from the inputs of each
  iteration, given as functions of the iteration number. Parallel execution of the update systems is modelled by its
  serialisations, one per permutation. Deferred commands: despawns take effect at the end of
  the frame; the spawns of \<open>setup\<close> are applied at once, which is what the end of the startup
  stage produces.

  \<^bold>\<open>Not modelled.\<close>
  Rendering, meshes and materials beyond their identity, UI layout (\<open>Style\<close>), fonts and
  asset loading, the windowing backend that executes the queued window commands, the
  \<open>println!\<close> of \<open>toggle_pause_menu\<close>, and the input delivery itself (the frame's keys and
  mouse deltas are the input of \<open>frame\<close>). C30 covers frames without Escape: with
  Escape, \<open>move_cam\<close> also appends cursor commands to the window queue, so their order
  relative to a close request of \<open>button_system\<close> depends on the schedule (C32).
\<close>

section \<open>Test data for the schedule\<close>

text \<open>A world with the camera at the origin looking down \<open>-Z\<close> and a sphere just beyond the
  render distance on the \<open>+Z\<close> axis, and a frame in which W is held.\<close>

definition drift_world :: world where
  "drift_world = initial_world\<lparr>entities :=
     [camera3d_bundle 0 Transform_default,
      pbr_bundle 1 (UVSphere 1 36 36) (Rgb 0 0 0.6) (transform_from_xyz 0 0 50.05)]\<rparr>"

definition walk_input :: frame_input where
  "walk_input = \<lparr>keys_pressed = [KeyW], keys_just_pressed = [], mouse_motion = []\<rparr>"

definition escape_input :: frame_input where
  "escape_input = \<lparr>keys_pressed = [], keys_just_pressed = [KeyEscape], mouse_motion = []\<rparr>"

section \<open>Helper facts\<close>

lemma walk_cam: "move_cam walk_input drift_world = Inr (drift_world\<lparr>entities :=
     [camera3d_bundle 0 (transform_from_xyz 0 0 (-0.1)),
      pbr_bundle 1 (UVSphere 1 36 36) (Rgb 0 0 0.6) (transform_from_xyz 0 0 50.05)]\<rparr>)"
  by (simp add: move_cam_def drift_world_def walk_input_def query_single_def camera3d_bundle_def
      pbr_bundle_def entity_default_def move_keys_def key_move_def Let_def transform_forward_def
      Transform_default_def transform_from_xyz_def update_entity_def vec3_length_def vec_simps SPEED_def
      vec3_normalize_def initial_world_def)

lemma startup_not_closing: "\<not> close_requested startup_world"
  by (simp add: close_requested_def startup_world_window)

lemma example_schedule_ok: "schedule_ok [ButtonSystem, MoveCam, EnforceRenderDistance]"
  by (simp add: schedule_ok_def)

section \<open>Properties of the running application\<close>

text \<open>C21. No system panics in any reachable world: from every world the program can reach,
  a frame run in any order of the three systems, on any input, returns a world.\<close>

theorem reachable_frame_no_panic:
  assumes "reachable w"
  shows "\<exists>w'. frame inp order w = Inr w'"
  using frame_facts [OF reachable_app_inv [OF assms]] by blast

theorem reachable_frame_no_panic_witness:
  "reachable startup_world \<and>
   (\<exists>w'. frame walk_input [ButtonSystem, MoveCam, EnforceRenderDistance] startup_world = Inr w')"
  using reachable_startup_world reachable_frame_no_panic [OF reachable_startup_world] by blast

text \<open>C22. In every reachable world the primary window exists, the cursor is visible exactly
  when it is not locked, and every root of the pause overlay is visible exactly when the cursor
  is: cursor grab and pause overlay move in lockstep.\<close>

theorem reachable_cursor_overlay_lockstep:
  assumes "reachable w"
  shows "\<exists>win. primary_window w = Some win \<and> cursor_visible win = (\<not> cursor_locked win) \<and>
     (\<forall>e \<in> set (entities w). is_menu_root e \<longrightarrow> visible e = cursor_visible win)"
  using reachable_app_inv [OF assms]
  by (auto simp: app_inv_def cursor_inv_def menu_roots_visible_def split: option.splits)

theorem reachable_cursor_overlay_lockstep_witness:
  "reachable startup_world \<and>
   (\<exists>win. primary_window startup_world = Some win \<and> cursor_visible win = (\<not> cursor_locked win) \<and>
     (\<forall>e \<in> set (entities startup_world). is_menu_root e \<longrightarrow> visible e = cursor_visible win))"
  using reachable_startup_world reachable_cursor_overlay_lockstep [OF reachable_startup_world] by blast

text \<open>C23. In every reachable world the pitch accumulator lies in \<open>[-1.54, 1.54]\<close>.\<close>

theorem reachable_pitch_bounded:
  assumes "reachable w"
  shows "-1.54 \<le> pitch (input_res w) \<and> pitch (input_res w) \<le> 1.54"
  using reachable_app_inv [OF assms] by (simp add: app_inv_def pitch_ok_def)

theorem reachable_pitch_bounded_witness:
  "reachable startup_world \<and> -1.54 \<le> pitch (input_res startup_world) \<and> pitch (input_res startup_world) \<le> 1.54"
  using reachable_startup_world reachable_pitch_bounded [OF reachable_startup_world] by blast

text \<open>C24. In every reachable world entity ids are distinct and the camera query
  \<open>single_mut\<close> finds exactly one camera.\<close>

theorem reachable_single_camera:
  assumes "reachable w"
  shows "distinct (map eid (entities w)) \<and> (\<exists>cam. query_single camera3d (entities w) = Inr cam)"
  using reachable_app_inv [OF assms]
  by (simp add: app_inv_def entity_inv_def query_single_Inr_iff_length)

theorem reachable_single_camera_witness:
  "reachable startup_world \<and> distinct (map eid (entities startup_world)) \<and>
   (\<exists>cam. query_single camera3d (entities startup_world) = Inr cam)"
  using reachable_startup_world reachable_single_camera [OF reachable_startup_world] by blast

text \<open>C25. Refinement of the pause state machine: a frame run in an admissible order moves the
  abstract pause state (\<open>Playing\<close> when the cursor is locked, \<open>Paused\<close> otherwise) exactly as
  \<open>pause_spec\<close> does: it switches when Escape was pressed this frame and stays otherwise.\<close>

theorem frame_refines_pause:
  assumes "schedule_ok order" and "frame inp order w = Inr w'"
  shows "pause_abs w' = map_option (pause_spec (KeyEscape \<in> set (keys_just_pressed inp))) (pause_abs w)"
proof -
  from assms(2) obtain w1 ids where r: "run_systems inp order (w, []) = Inr (w1, ids)" "w' = despawn ids w1"
    by (auto simp: frame_def split: sum.splits)
  have "pause_abs w' = pause_abs w1" using r(2) by (simp add: pause_abs_def despawn_def)
  with run_systems_pause [OF r(1)] schedule_ok_count [OF assms(1)] show ?thesis by simp
qed

theorem frame_refines_pause_witness:
  "schedule_ok [ButtonSystem, MoveCam, EnforceRenderDistance] \<and>
   (\<exists>w'. frame escape_input [ButtonSystem, MoveCam, EnforceRenderDistance] startup_world = Inr w' \<and>
      pause_abs startup_world = Some Playing \<and> pause_abs w' = Some Paused)"
proof -
  obtain w' where w': "frame escape_input [ButtonSystem, MoveCam, EnforceRenderDistance] startup_world = Inr w'"
    using frame_facts [OF startup_app_inv] by blast
  have p: "pause_abs startup_world = Some Playing" by (simp add: pause_abs_def startup_world_window)
  from frame_refines_pause [OF example_schedule_ok w'] p have "pause_abs w' = Some Paused"
    by (simp add: escape_input_def)
  with w' p example_schedule_ok show ?thesis by blast
qed

text \<open>C26. Round trip: two frames in which only Escape is pressed (no movement key, no mouse
  motion) give back the original entities, look state and cursor state: the overlay and the
  cursor grab are each toggled twice, and the camera keeps its transform.\<close>

theorem escape_twice_roundtrip:
  assumes "distinct (map eid (entities w))"
    and "move_cam escape_input w = Inr w1" and "move_cam escape_input w1 = Inr w2"
  shows "entities w2 = entities w \<and> input_res w2 = input_res w \<and>
    map_option cursor_locked (primary_window w2) = map_option cursor_locked (primary_window w) \<and>
    map_option cursor_visible (primary_window w2) = map_option cursor_visible (primary_window w)"
proof -
  have w1: "w1 = (case primary_window w of None \<Rightarrow> w
      | Some win \<Rightarrow> w\<lparr>entities := toggle_pause_menu (entities w), primary_window := Some (toggle_grab_cursor win)\<rparr>)"
    using move_cam_escape_only [OF assms(1)] assms(2) by (simp add: escape_input_def)
  have d1: "distinct (map eid (entities w1))" using assms(1) by (simp add: w1 split: option.splits)
  have w2: "w2 = (case primary_window w1 of None \<Rightarrow> w1
      | Some win \<Rightarrow> w1\<lparr>entities := toggle_pause_menu (entities w1), primary_window := Some (toggle_grab_cursor win)\<rparr>)"
    using move_cam_escape_only [OF d1] assms(3) by (simp add: escape_input_def)
  show ?thesis by (simp add: w2 w1 split: option.splits)
qed

theorem escape_twice_roundtrip_witness:
  "\<exists>w1 w2. distinct (map eid (entities startup_world)) \<and>
     move_cam escape_input startup_world = Inr w1 \<and> move_cam escape_input w1 = Inr w2 \<and>
     entities w2 = entities startup_world \<and> input_res w2 = input_res startup_world"
proof -
  obtain w1 where w1: "move_cam escape_input startup_world = Inr w1" "app_inv w1"
    using move_cam_facts [OF startup_app_inv] by blast
  obtain w2 where w2: "move_cam escape_input w1 = Inr w2"
    using move_cam_facts [OF w1(2)] by blast
  have d: "distinct (map eid (entities startup_world))"
    using startup_entity_inv by (simp add: entity_inv_def)
  from escape_twice_roundtrip [OF d w1(1) w2] d w1(1) w2 show ?thesis by blast
qed

text \<open>C27. The frame's result depends on the order the engine runs the unordered systems:
  with the camera at the origin, W held and a sphere at distance 50.05, running \<open>move_cam\<close>
  before \<open>enforce_render_distance\<close> keeps the sphere (the measure becomes 49.95), the other
  order despawns it. Both orders are admissible schedules of \<open>main\<close>.\<close>

theorem schedule_order_changes_culling:
  "schedule_ok [MoveCam, EnforceRenderDistance, ButtonSystem] \<and>
   schedule_ok [EnforceRenderDistance, MoveCam, ButtonSystem] \<and>
   frame walk_input [MoveCam, EnforceRenderDistance, ButtonSystem] drift_world =
     Inr (drift_world\<lparr>entities := [camera3d_bundle 0 (transform_from_xyz 0 0 (-0.1)),
            pbr_bundle 1 (UVSphere 1 36 36) (Rgb 0 0 0.6) (transform_from_xyz 0 0 50.05)]\<rparr>) \<and>
   frame walk_input [EnforceRenderDistance, MoveCam, ButtonSystem] drift_world =
     Inr (drift_world\<lparr>entities := [camera3d_bundle 0 (transform_from_xyz 0 0 (-0.1))]\<rparr>)"
proof -
  let ?moved = "drift_world\<lparr>entities := [camera3d_bundle 0 (transform_from_xyz 0 0 (-0.1)),
            pbr_bundle 1 (UVSphere 1 36 36) (Rgb 0 0 0.6) (transform_from_xyz 0 0 50.05)]\<rparr>"
  have e1: "enforce_render_distance ?moved = Inr []"
    by (simp add: enforce_render_distance_def query_single_def beyond_render_distance_dot camera3d_bundle_def
        pbr_bundle_def entity_default_def cull_query_def transform_from_xyz_def vec_simps)
  have e2: "enforce_render_distance drift_world = Inr [1]"
    by (simp add: enforce_render_distance_def drift_world_def query_single_def beyond_render_distance_dot
        camera3d_bundle_def pbr_bundle_def entity_default_def cull_query_def transform_from_xyz_def
        Transform_default_def vec_simps)
  have b: "button_system ?moved = Inr ?moved"
    by (rule button_system_no_buttons) (simp add: camera3d_bundle_def pbr_bundle_def entity_default_def)
  have d: "despawn [1] ?moved = drift_world\<lparr>entities := [camera3d_bundle 0 (transform_from_xyz 0 0 (-0.1))]\<rparr>"
    by (simp add: despawn_def camera3d_bundle_def pbr_bundle_def entity_default_def)
  have d0: "despawn [] w = w" for w by (simp add: despawn_def)
  show ?thesis
    using e1 e2 walk_cam b d by (simp add: schedule_ok_def frame_def d0 insert_commute)
qed

end
